theory Spec2Isabelle
  imports Complex_Main
begin

section \<open>Data model\<close>

text \<open>
  The rhythm game of \<^verbatim>\<open>App.tsx\<close> (the third document of
  \<^verbatim>\<open>src/components/FloatingTextManager.tsx\<close>), its audio clock
  \<^verbatim>\<open>AudioService\<close> (\<^verbatim>\<open>src/unnamed/part_000\<close>) and the types of
  \<^verbatim>\<open>src/unnamed/part_001\<close>.

  A JavaScript \<^verbatim>\<open>number\<close> is modelled as a \<^typ>\<open>real\<close>: comparisons and sums are
  exact, and the rounding of IEEE doubles, \<^verbatim>\<open>NaN\<close> and the infinities are left out.
  The counters \<^verbatim>\<open>scoreRef\<close> and \<^verbatim>\<open>comboRef\<close> only ever hold 0 or a value
  reached by adding 100, 300 or 1, so they are natural numbers. Refs and React state that only
  feed the canvas (particles, lasers, shake, the throttled copies of score, combo and heat) are
  not part of the model.
\<close>

datatype GameState = SETUP | PLAYING | FINISHED

text \<open>
  \<^verbatim>\<open>interface Beat { id; time; lane; hit; missed }\<close>. The record is polymorphic in the
  type of \<^verbatim>\<open>time\<close> and \<^verbatim>\<open>lane\<close>: the game logic reads them as numbers
  (\<open>Beat\<close>), while chart loading builds them from values of type \<^verbatim>\<open>any\<close>.
\<close>

record 'n Beat_of =
  id_beat :: nat
  time :: 'n
  lane :: 'n
  hit :: bool
  missed :: bool

type_synonym Beat = "real Beat_of"

datatype Rating = PERFECT | GREAT | BLOOM

definition HIT_WINDOW :: real where
  "HIT_WINDOW = 0.15"

definition PERFECT_WINDOW :: real where
  "PERFECT_WINDOW = 0.05"

section \<open>The audio clock\<close>

text \<open>
  \<^verbatim>\<open>class AudioService\<close>: \<open>ctx\<close> and \<open>source\<close> say whether the field is
  non-null, \<open>buffer\<close> holds the duration of the decoded buffer when there is one. The
  reading of \<^verbatim>\<open>this.ctx.currentTime\<close>, which the browser advances, is an argument
  \<open>ctxTime\<close> of the operations that read it.
\<close>

record AudioService =
  ctx :: bool
  source :: bool
  buffer :: "real option"
  startTime :: real

definition audioService :: AudioService where
  "audioService = \<lparr>ctx = False, source = False, buffer = None, startTime = 0\<rparr>"

definition stop :: "AudioService \<Rightarrow> AudioService" where
  "stop a = (if source a then a\<lparr>source := False\<rparr> else a)"

definition play :: "real \<Rightarrow> real \<Rightarrow> AudioService \<Rightarrow> AudioService" where
  "play delay ctxTime a =
     (if \<not> ctx a \<or> buffer a = None then a
      else (stop a)\<lparr>source := True, startTime := ctxTime + delay\<rparr>)"

definition getCurrentTime :: "AudioService \<Rightarrow> real \<Rightarrow> real" where
  "getCurrentTime a ctxTime =
     (if \<not> ctx a \<or> \<not> source a then 0 else ctxTime - startTime a)"

definition getDuration :: "AudioService \<Rightarrow> real" where
  "getDuration a = (case buffer a of None \<Rightarrow> 0 | Some d \<Rightarrow> d)"

definition isReady :: "AudioService \<Rightarrow> bool" where
  "isReady a = (buffer a \<noteq> None)"

section \<open>Chart payloads\<close>

text \<open>
  The values that \<^verbatim>\<open>JSON.parse\<close> can return, and \<^verbatim>\<open>undefined\<close>, which
  reading an absent property gives. An object is the list of its own properties.
\<close>

datatype js =
    JUndefined
  | JNull
  | JBool bool
  | JNum real
  | JStr string
  | JArr "js list"
  | JObj "(string \<times> js) list"

text \<open>
  \<^verbatim>\<open>b.k\<close> for a property name \<open>k\<close> that no prototype defines (the loader reads
  only \<^verbatim>\<open>time\<close> and \<^verbatim>\<open>lane\<close>): a TypeError (\<open>None\<close>) on
  \<^verbatim>\<open>null\<close> and \<^verbatim>\<open>undefined\<close>, the own property of an object, and
  \<^verbatim>\<open>undefined\<close> on everything else.
\<close>

fun get_field :: "js \<Rightarrow> string \<Rightarrow> js option" where
  "get_field JUndefined k = None"
| "get_field JNull k = None"
| "get_field (JObj kvs) k = Some (case map_of kvs k of None \<Rightarrow> JUndefined | Some v \<Rightarrow> v)"
| "get_field b k = Some JUndefined"

text \<open>\<^verbatim>\<open>x ?? 1\<close>\<close>

definition nullish_or_1 :: "js \<Rightarrow> js" where
  "nullish_or_1 x = (if x = JUndefined \<or> x = JNull then JNum 1 else x)"

text \<open>
  The callback of \<^verbatim>\<open>beatData.map((b, i) => ...)\<close> in \<^verbatim>\<open>startGame\<close>;
  \<open>None\<close> is the TypeError of reading a property of \<^verbatim>\<open>null\<close>.
\<close>

definition parseBeat :: "nat \<Rightarrow> js \<Rightarrow> js Beat_of option" where
  "parseBeat i b =
     (case b of
        JNum n \<Rightarrow> Some \<lparr>id_beat = i, time = JNum n, lane = JNum 1, hit = False, missed = False\<rparr>
      | _ \<Rightarrow>
         (case get_field b ''time'' of
            None \<Rightarrow> None
          | Some t \<Rightarrow>
             (case get_field b ''lane'' of
                None \<Rightarrow> None
              | Some l \<Rightarrow>
                 Some \<lparr>id_beat = i, time = t, lane = nullish_or_1 l,
                       hit = False, missed = False\<rparr>)))"

fun parseBeats :: "nat \<Rightarrow> js list \<Rightarrow> js Beat_of list option" where
  "parseBeats i [] = Some []"
| "parseBeats i (b # bs) =
     (case parseBeat i b of
        None \<Rightarrow> None
      | Some p \<Rightarrow> (case parseBeats (Suc i) bs of None \<Rightarrow> None | Some ps \<Rightarrow> Some (p # ps)))"

text \<open>
  \<^verbatim>\<open>beatsRef.current = parsedBeats\<close> stores the parsed objects, whose fields have
  type \<^verbatim>\<open>any\<close>, in a ref of type \<^verbatim>\<open>Beat[]\<close>. \<open>as_Beat\<close> is that
  reading of a parsed beat as a \<^verbatim>\<open>Beat\<close>; it exists when \<^verbatim>\<open>time\<close> and
  \<^verbatim>\<open>lane\<close> are numbers.
\<close>

definition as_Beat :: "js Beat_of \<Rightarrow> Beat option" where
  "as_Beat p =
     (case time p of
        JNum t \<Rightarrow>
          (case lane p of
             JNum l \<Rightarrow>
               Some \<lparr>id_beat = id_beat p, time = t, lane = l, hit = hit p, missed = missed p\<rparr>
           | _ \<Rightarrow> None)
      | _ \<Rightarrow> None)"

section \<open>The game state\<close>

text \<open>
  The refs and state of \<^verbatim>\<open>App\<close> that the game logic reads and writes. Like the
  notes, the record is polymorphic in the type of the chart's \<^verbatim>\<open>time\<close> and
  \<^verbatim>\<open>lane\<close>: \<open>game\<close> is the state as the game logic reads it, with numbers.
\<close>

record 'n game_of =
  gameState :: GameState
  beatsRef :: "'n Beat_of list"
  scoreRef :: nat
  comboRef :: nat
  heatRef :: real
  rawBeatsInput :: string
  audio :: AudioService

type_synonym game = "real game_of"

definition App :: game where
  "App = \<lparr>gameState = SETUP, beatsRef = [], scoreRef = 0, comboRef = 0, heatRef = 0,
          rawBeatsInput = [], audio = audioService\<rparr>"

section \<open>Starting a game\<close>

text \<open>
  The three \<^verbatim>\<open>alert\<close> calls of \<^verbatim>\<open>startGame\<close>: no audio loaded, no chart
  text entered, chart data invalid.
\<close>

datatype alert = NeedAudio | NeedChart | InvalidChart

text \<open>
  What a call of \<^verbatim>\<open>startGame\<close> does. \<open>Alerted a g\<close>: the alert \<open>a\<close> is
  shown and the call returns in state \<open>g\<close>. \<open>Started g\<close>: the call went through and
  left the state \<open>g\<close>. \<open>Started_any g\<close>: the call went through and left the state
  \<open>g\<close>, in whose chart some \<^verbatim>\<open>time\<close> or \<^verbatim>\<open>lane\<close> is not a number. The
  model of the game logic reads these fields as numbers and does not follow such a state
  further; its chart holds the notes that were stored, in input order, and the order in
  which \<^verbatim>\<open>sort\<close> leaves them is not modelled.
\<close>

datatype outcome = Alerted alert game | Started game | Started_any "js game_of"

text \<open>
  The value of \<^verbatim>\<open>beatData\<close> before the format check: the override array, or the
  parsed chart text. \<^verbatim>\<open>JSON.parse\<close> is the parameter \<open>JSON_parse\<close>, \<open>None\<close>
  where it throws.
\<close>

definition beatData :: "(string \<Rightarrow> js option) \<Rightarrow> js list option \<Rightarrow> string \<Rightarrow> alert + js" where
  "beatData JSON_parse overrideBeats raw =
     (case overrideBeats of
        Some bs \<Rightarrow> Inr (JArr bs)
      | None \<Rightarrow>
          if raw = [] then Inl NeedChart
          else (case JSON_parse raw of None \<Rightarrow> Inl InvalidChart | Some v \<Rightarrow> Inr v))"

text \<open>
  The comparator of \<^verbatim>\<open>parsedBeats.sort((a, b) => a.time - b.time)\<close> converts both
  times to numbers. The conversion of a value to a primitive throws a TypeError when neither
  \<^verbatim>\<open>valueOf\<close> nor \<^verbatim>\<open>toString\<close> gives a primitive: on an object with an own
  property \<^verbatim>\<open>toString\<close> (no value of a payload is callable, and the inherited
  \<^verbatim>\<open>valueOf\<close> returns the object itself), and on an array whose
  \<^verbatim>\<open>join\<close> meets such a value. On every other value it returns.
\<close>

fun ToPrimitive_throws :: "js \<Rightarrow> bool" where
  "ToPrimitive_throws (JObj kvs) = (map_of kvs ''toString'' \<noteq> None)"
| "ToPrimitive_throws (JArr xs) = list_ex ToPrimitive_throws xs"
| "ToPrimitive_throws v = False"

text \<open>
  \<^verbatim>\<open>sort\<close> calls the comparator only on an array of two or more elements, and there
  every element takes part in a comparison: the sort throws when the conversion of some
  \<^verbatim>\<open>time\<close> does.
\<close>

definition sort_throws :: "js Beat_of list \<Rightarrow> bool" where
  "sort_throws ps \<longleftrightarrow> 2 \<le> length ps \<and> list_ex (\<lambda>p. ToPrimitive_throws (time p)) ps"

text \<open>
  On numeric times the sort is a stable sort by \<^verbatim>\<open>time\<close>, which \<^const>\<open>sort_key\<close>
  is. The map, the format check and the sort run inside \<^verbatim>\<open>try\<close> before the first
  write, so every throw ends in the alert of \<^verbatim>\<open>catch\<close> with the state as it was.
\<close>

definition startGame ::
  "(string \<Rightarrow> js option) \<Rightarrow> real \<Rightarrow> js list option \<Rightarrow> game \<Rightarrow> outcome" where
  "startGame JSON_parse ctxTime overrideBeats g =
     (if \<not> isReady (audio g) then Alerted NeedAudio g
      else
        (case beatData JSON_parse overrideBeats (rawBeatsInput g) of
           Inl a \<Rightarrow> Alerted a g
         | Inr (JArr bs) \<Rightarrow>
             (case parseBeats 0 bs of
                None \<Rightarrow> Alerted InvalidChart g
              | Some ps \<Rightarrow>
                  if sort_throws ps then Alerted InvalidChart g
                  else
                    (case those (map as_Beat ps) of
                       None \<Rightarrow>
                         Started_any \<lparr>gameState = PLAYING, beatsRef = ps,
                                      scoreRef = 0, comboRef = 0, heatRef = 0,
                                      rawBeatsInput = rawBeatsInput g,
                                      audio = play 3 ctxTime (audio g)\<rparr>
                     | Some parsedBeats \<Rightarrow>
                         Started (g\<lparr>beatsRef := sort_key time parsedBeats,
                                    scoreRef := 0, comboRef := 0, heatRef := 0,
                                    gameState := PLAYING,
                                    audio := play 3 ctxTime (audio g)\<rparr>)))
         | Inr _ \<Rightarrow> Alerted InvalidChart g))"

text \<open>The phase after a call of \<^verbatim>\<open>startGame\<close>.\<close>

definition phase_after :: "outcome \<Rightarrow> GameState" where
  "phase_after r = (case r of Alerted a g0 \<Rightarrow> gameState g0 | Started g' \<Rightarrow> gameState g'
                      | Started_any g' \<Rightarrow> gameState g')"

text \<open>
  The notes of the chart after a call of \<^verbatim>\<open>startGame\<close>, with \<^verbatim>\<open>time\<close> and
  \<^verbatim>\<open>lane\<close> as values of type \<^verbatim>\<open>any\<close>.
\<close>

definition any_Beat :: "Beat \<Rightarrow> js Beat_of" where
  "any_Beat b = \<lparr>id_beat = id_beat b, time = JNum (time b), lane = JNum (lane b),
                 hit = hit b, missed = missed b\<rparr>"

definition chart_after :: "outcome \<Rightarrow> js Beat_of list" where
  "chart_after r = (case r of Alerted a g0 \<Rightarrow> map any_Beat (beatsRef g0)
                      | Started g' \<Rightarrow> map any_Beat (beatsRef g')
                      | Started_any g' \<Rightarrow> beatsRef g')"

section \<open>Lane input\<close>

text \<open>The predicate of \<^verbatim>\<open>beatsRef.current.find\<close> in \<^verbatim>\<open>handleLaneInput\<close>.\<close>

definition hittable :: "real \<Rightarrow> real \<Rightarrow> Beat \<Rightarrow> bool" where
  "hittable laneIndex currentTime b \<longleftrightarrow>
     \<not> hit b \<and> \<not> missed b \<and> lane b = laneIndex \<and> \<bar>time b - currentTime\<bar> < HIT_WINDOW"

text \<open>
  \<^verbatim>\<open>find\<close> returns a reference to the first element that satisfies the predicate, and
  \<^verbatim>\<open>hittableBeat.hit = true\<close> writes through it: the model finds the position and
  updates the chart there.
\<close>

fun findIndex :: "('a \<Rightarrow> bool) \<Rightarrow> 'a list \<Rightarrow> nat option" where
  "findIndex P [] = None"
| "findIndex P (x # xs) = (if P x then Some 0 else map_option Suc (findIndex P xs))"

text \<open>
  \<open>rnd\<close> is the value of \<^verbatim>\<open>Math.random()\<close>. The second component is the rating
  handed to \<^verbatim>\<open>spawnFloatingText\<close>, \<open>None\<close> when the press judges nothing.
\<close>

definition handleLaneInput :: "real \<Rightarrow> real \<Rightarrow> real \<Rightarrow> game \<Rightarrow> game \<times> Rating option" where
  "handleLaneInput ctxTime rnd laneIndex g =
     (if gameState g \<noteq> PLAYING then (g, None)
      else
        let currentTime = getCurrentTime (audio g) ctxTime in
        if currentTime < 0 then (g, None)
        else
          (case findIndex (hittable laneIndex currentTime) (beatsRef g) of
             None \<Rightarrow> (g, None)
           | Some i \<Rightarrow>
               let hittableBeat = beatsRef g ! i;
                   diff = \<bar>time hittableBeat - currentTime\<bar>;
                   rating = (if diff < PERFECT_WINDOW
                             then (if comboRef g > 30 \<and> rnd > 0.8 then BLOOM else PERFECT)
                             else GREAT);
                   scoreAdd = (if diff < PERFECT_WINDOW then 300 else 100);
                   heatAdd = (if diff < PERFECT_WINDOW then 10 else 5)
               in (g\<lparr>beatsRef := (beatsRef g)[i := hittableBeat\<lparr>hit := True\<rparr>],
                     scoreRef := scoreRef g + scoreAdd,
                     comboRef := comboRef g + 1,
                     heatRef := min 100 (heatRef g + heatAdd)\<rparr>,
                   Some rating)))"

section \<open>The frame loop\<close>

definition getTierFromRef :: "game \<Rightarrow> nat" where
  "getTierFromRef g =
     (let c = comboRef g in if c < 10 then 0 else if c < 30 then 1 else if c < 50 then 2 else 3)"

text \<open>
  The callback of \<^verbatim>\<open>beatsRef.current.forEach\<close> under \<^verbatim>\<open>// Check misses\<close>,
  run over the chart in order; combo and heat are threaded through.
\<close>

fun checkMisses :: "real \<Rightarrow> Beat list \<Rightarrow> nat \<Rightarrow> real \<Rightarrow> Beat list \<times> nat \<times> real" where
  "checkMisses now [] c h = ([], c, h)"
| "checkMisses now (beat # bs) c h =
     (if \<not> hit beat \<and> \<not> missed beat \<and> now > time beat + HIT_WINDOW
      then (case checkMisses now bs 0 (max 0 (h - 15)) of
              (bs', c', h') \<Rightarrow> (beat\<lparr>missed := True\<rparr> # bs', c', h'))
      else (case checkMisses now bs c h of
              (bs', c', h') \<Rightarrow> (beat # bs', c', h')))"

text \<open>
  One run of \<^verbatim>\<open>loop\<close>: heat decay, the finish check, the miss sweep. When the finish
  check fires, the loop returns before the sweep and requests no further frame; the effect
  of \<^verbatim>\<open>[gameState]\<close> then runs with a phase other than PLAYING and stops the audio.
\<close>

definition loop :: "real \<Rightarrow> game \<Rightarrow> game" where
  "loop ctxTime g =
     (let now = getCurrentTime (audio g) ctxTime;
          g1 = g\<lparr>heatRef := max 0 (heatRef g - 0.15)\<rparr>
      in if now > getDuration (audio g) + 2 \<and> getDuration (audio g) > 0
         then g1\<lparr>gameState := FINISHED, audio := stop (audio g)\<rparr>
         else if now > 0
         then (case checkMisses now (beatsRef g1) (comboRef g1) (heatRef g1) of
                 (bs, c, h) \<Rightarrow> g1\<lparr>beatsRef := bs, comboRef := c, heatRef := h\<rparr>)
         else g1)"

text \<open>
  An animation frame: the effect requests frames only while the phase is PLAYING and cancels
  the pending one otherwise.
\<close>

definition frame :: "real \<Rightarrow> game \<Rightarrow> game" where
  "frame ctxTime g = (if gameState g = PLAYING then loop ctxTime g else g)"

text \<open>The replay button of the finished screen.\<close>

definition replay :: "real \<Rightarrow> game \<Rightarrow> game" where
  "replay ctxTime g =
     g\<lparr>gameState := PLAYING,
       audio := play 3 ctxTime (audio g),
       beatsRef := map (\<lambda>b. b\<lparr>hit := False, missed := False\<rparr>) (beatsRef g),
       comboRef := 0, scoreRef := 0, heatRef := 0\<rparr>"

text \<open>Ticks and lane presses, each with the reading of the audio context's clock.\<close>

datatype event = Frame real | LaneInput real real real

fun step :: "game \<Rightarrow> event \<Rightarrow> game" where
  "step g (Frame ctxTime) = frame ctxTime g"
| "step g (LaneInput ctxTime rnd laneIndex) = fst (handleLaneInput ctxTime rnd laneIndex g)"

definition run :: "game \<Rightarrow> event list \<Rightarrow> game" where
  "run g es = foldl step g es"

section \<open>Notions used in the statements\<close>

text \<open>
  The notes that the miss sweep marks at time \<open>now\<close>: the condition of the
  \<^verbatim>\<open>if\<close> in the callback of \<^verbatim>\<open>// Check misses\<close>.
\<close>

definition overdue :: "real \<Rightarrow> Beat \<Rightarrow> bool" where
  "overdue now b \<longleftrightarrow> \<not> hit b \<and> \<not> missed b \<and> now > time b + HIT_WINDOW"

text \<open>
  How a note may differ between two states of one game: a note that is hit or missed stays
  as it is; any other note keeps \<^verbatim>\<open>id\<close>, \<^verbatim>\<open>time\<close> and
  \<^verbatim>\<open>lane\<close> and does not carry both flags.
\<close>

definition evolves :: "Beat \<Rightarrow> Beat \<Rightarrow> bool" where
  "evolves b b' \<longleftrightarrow>
     (if hit b \<or> missed b then b' = b
      else id_beat b' = id_beat b \<and> time b' = time b \<and> lane b' = lane b
           \<and> \<not> (hit b' \<and> missed b'))"

text \<open>
  The order of a loaded chart: ascending by \<^verbatim>\<open>time\<close>, and among notes of equal
  time ascending by \<^verbatim>\<open>id\<close>, which is the position in the input.
\<close>

definition chart_ordered :: "Beat list \<Rightarrow> bool" where
  "chart_ordered bs \<longleftrightarrow>
     sorted_wrt (\<lambda>a b. time a < time b \<or> (time a = time b \<and> id_beat a < id_beat b)) bs"

text \<open>
  The duration of the chart, as the wording of C2 has it: the latest time of a note, 0 for a
  chart without notes. The code computes no such value; it appears only where that wording
  is compared with the duration the loop reads.
\<close>

definition chartDuration :: "Beat list \<Rightarrow> real" where
  "chartDuration bs = fold max (map time bs) 0"

section \<open>Concrete states and payloads\<close>

text \<open>
  The instances at which the theorems below are evaluated. In each state the audio context
  exists and a 30 second buffer is loaded; where playback is scheduled it starts at context
  time 3, so the game clock is the context time minus 3.
\<close>

definition g_late :: game where
  "g_late = \<lparr>gameState = PLAYING,
     beatsRef = [\<lparr>id_beat = 0, time = 32, lane = 1, hit = False, missed = False\<rparr>],
     scoreRef = 0, comboRef = 5, heatRef = 40, rawBeatsInput = [],
     audio = \<lparr>ctx = True, source = True, buffer = Some 30, startTime = 3\<rparr>\<rparr>"

definition g_one :: "nat \<Rightarrow> game" where
  "g_one c = \<lparr>gameState = PLAYING,
     beatsRef = [\<lparr>id_beat = 0, time = 1, lane = 1, hit = False, missed = False\<rparr>],
     scoreRef = 0, comboRef = c, heatRef = 95, rawBeatsInput = [],
     audio = \<lparr>ctx = True, source = True, buffer = Some 30, startTime = 3\<rparr>\<rparr>"

definition g_three :: game where
  "g_three = \<lparr>gameState = PLAYING,
     beatsRef = [\<lparr>id_beat = 0, time = 1, lane = 1, hit = False, missed = False\<rparr>,
                 \<lparr>id_beat = 1, time = 2, lane = 0, hit = False, missed = False\<rparr>,
                 \<lparr>id_beat = 2, time = 2.1, lane = 0, hit = False, missed = False\<rparr>],
     scoreRef = 0, comboRef = 0, heatRef = 0, rawBeatsInput = [],
     audio = \<lparr>ctx = True, source = True, buffer = Some 30, startTime = 3\<rparr>\<rparr>"

definition g_setup :: "string \<Rightarrow> game" where
  "g_setup raw = \<lparr>gameState = SETUP,
     beatsRef = [\<lparr>id_beat = 0, time = 1, lane = 1, hit = True, missed = False\<rparr>],
     scoreRef = 300, comboRef = 1, heatRef = 4, rawBeatsInput = raw,
     audio = \<lparr>ctx = True, source = False, buffer = Some 30, startTime = 3\<rparr>\<rparr>"

definition g_started :: game where
  "g_started = \<lparr>gameState = PLAYING,
     beatsRef = [\<lparr>id_beat = 1, time = 2, lane = 1, hit = False, missed = False\<rparr>,
                 \<lparr>id_beat = 0, time = 2.1, lane = 1, hit = False, missed = False\<rparr>],
     scoreRef = 0, comboRef = 0, heatRef = 0, rawBeatsInput = ''[2.1, 2]'',
     audio = \<lparr>ctx = True, source = True, buffer = Some 30, startTime = 3\<rparr>\<rparr>"

definition entry_lane7 :: js where
  "entry_lane7 = JObj [(''time'', JNum 1), (''lane'', JNum 7)]"

text \<open>
  Two entries: one whose \<^verbatim>\<open>time\<close> is an object with an own property
  \<^verbatim>\<open>toString\<close>, and one whose \<^verbatim>\<open>lane\<close> is the string \<^verbatim>\<open>7\<close>.
\<close>

definition entry_bad_time :: js where
  "entry_bad_time = JObj [(''time'', JObj [(''toString'', JNum 0)])]"

definition entry_lane_str :: js where
  "entry_lane_str = JObj [(''time'', JNum 1), (''lane'', JStr ''7'')]"

text \<open>
  \<^verbatim>\<open>JSON.parse\<close> on the chart texts of the instances: two arrays and an object; the
  instances use no other text but the unfinished array \<^verbatim>\<open>[1,\<close>, on which it throws.
\<close>

definition JSON_parse_sample :: "string \<Rightarrow> js option" where
  "JSON_parse_sample s =
     (if s = ''[]'' then Some (JArr [])
      else if s = ''{}'' then Some (JObj [])
      else if s = ''[2.1, 2]'' then Some (JArr [JNum 2.1, JNum 2])
      else None)"

section \<open>Properties of the miss sweep\<close>

lemma checkMisses_Cons_fst:
  "fst (checkMisses now (b # bs) c h) =
     (if overdue now b then b\<lparr>missed := True\<rparr> # fst (checkMisses now bs 0 (max 0 (h - 15)))
      else b # fst (checkMisses now bs c h))"
  by (simp add: overdue_def split: prod.splits)

lemma checkMisses_beats:
  "fst (checkMisses now bs c h) = map (\<lambda>b. if overdue now b then b\<lparr>missed := True\<rparr> else b) bs"
proof (induction bs arbitrary: c h)
  case Nil
  show ?case by simp
next
  case (Cons b bs)
  show ?case
    unfolding checkMisses_Cons_fst by (simp add: Cons.IH)
qed

lemma checkMisses_combo:
  "fst (snd (checkMisses now bs c h)) = (if filter (overdue now) bs = [] then c else 0)"
proof (induction bs arbitrary: c h)
  case Nil
  show ?case by simp
next
  case (Cons b bs)
  show ?case
  proof (cases "overdue now b")
    case True
    then have "fst (snd (checkMisses now (b # bs) c h))
                 = fst (snd (checkMisses now bs 0 (max 0 (h - 15))))"
      by (simp add: overdue_def split: prod.splits)
    with True Cons.IH [of 0 "max 0 (h - 15)"] show ?thesis by simp
  next
    case False
    then have "fst (snd (checkMisses now (b # bs) c h)) = fst (snd (checkMisses now bs c h))"
      by (auto simp: overdue_def split: prod.splits)
    with False Cons.IH [of c h] show ?thesis by simp
  qed
qed

lemma checkMisses_heat:
  "0 \<le> h \<Longrightarrow> snd (snd (checkMisses now bs c h))
     = max 0 (h - 15 * real (length (filter (overdue now) bs)))"
proof (induction bs arbitrary: c h)
  case Nil
  then show ?case by simp
next
  case (Cons b bs)
  show ?case
  proof (cases "overdue now b")
    case True
    then have "snd (snd (checkMisses now (b # bs) c h))
                 = snd (snd (checkMisses now bs 0 (max 0 (h - 15))))"
      by (simp add: overdue_def split: prod.splits)
    also have "\<dots> = max 0 (max 0 (h - 15) - 15 * real (length (filter (overdue now) bs)))"
      by (rule Cons.IH) simp
    finally show ?thesis using True by (simp add: max_def algebra_simps)
  next
    case False
    then have "snd (snd (checkMisses now (b # bs) c h)) = snd (snd (checkMisses now bs c h))"
      by (auto simp: overdue_def split: prod.splits)
    with False Cons.IH [OF Cons.prems, of c] show ?thesis by simp
  qed
qed

lemma checkMisses_heat_bounds:
  assumes "0 \<le> h" "h \<le> 100"
  shows "0 \<le> snd (snd (checkMisses now bs c h)) \<and> snd (snd (checkMisses now bs c h)) \<le> 100"
  using assms by (simp add: checkMisses_heat)

lemma checkMisses_heat_funpow:
  "snd (snd (checkMisses now bs c h))
     = ((\<lambda>h. max 0 (h - 15)) ^^ length (filter (overdue now) bs)) h"
proof (induction bs arbitrary: c h)
  case Nil
  show ?case by simp
next
  case (Cons b bs)
  show ?case
  proof (cases "overdue now b")
    case True
    then have "snd (snd (checkMisses now (b # bs) c h))
                 = snd (snd (checkMisses now bs 0 (max 0 (h - 15))))"
      by (simp add: overdue_def split: prod.splits)
    with True Cons.IH [of 0 "max 0 (h - 15)"]
      funpow_swap1 [of "\<lambda>h::real. max 0 (h - 15)" "length (filter (overdue now) bs)" h]
    show ?thesis
      by simp
  next
    case False
    then have "snd (snd (checkMisses now (b # bs) c h)) = snd (snd (checkMisses now bs c h))"
      by (auto simp: overdue_def split: prod.splits)
    with False Cons.IH [of c h] show ?thesis by simp
  qed
qed

lemma loop_sweep:
  assumes "\<not> (getCurrentTime (audio g) t > getDuration (audio g) + 2 \<and> getDuration (audio g) > 0)"
    and "0 < getCurrentTime (audio g) t"
  shows "loop t g = g\<lparr>heatRef := snd (snd (checkMisses (getCurrentTime (audio g) t) (beatsRef g)
                                       (comboRef g) (max 0 (heatRef g - 0.15)))),
                      beatsRef := fst (checkMisses (getCurrentTime (audio g) t) (beatsRef g)
                                       (comboRef g) (max 0 (heatRef g - 0.15))),
                      comboRef := fst (snd (checkMisses (getCurrentTime (audio g) t) (beatsRef g)
                                       (comboRef g) (max 0 (heatRef g - 0.15))))\<rparr>"
  using assms by (auto simp: loop_def Let_def split: prod.splits)

lemma loop_beats:
  "beatsRef (loop t g) = beatsRef g
   \<or> beatsRef (loop t g)
       = map (\<lambda>b. if overdue (getCurrentTime (audio g) t) b then b\<lparr>missed := True\<rparr> else b)
           (beatsRef g)"
proof (cases "\<not> (getCurrentTime (audio g) t > getDuration (audio g) + 2 \<and> getDuration (audio g) > 0)
              \<and> 0 < getCurrentTime (audio g) t")
  case True
  then show ?thesis
    by (simp add: loop_sweep checkMisses_beats)
next
  case False
  then have "beatsRef (loop t g) = beatsRef g"
    by (auto simp: loop_def Let_def)
  then show ?thesis ..
qed

section \<open>Properties of lane input\<close>

lemma findIndex_Some:
  "findIndex P xs = Some i \<Longrightarrow> i < length xs \<and> P (xs ! i) \<and> (\<forall>j<i. \<not> P (xs ! j))"
proof (induction xs arbitrary: i)
  case Nil
  then show ?case by simp
next
  case (Cons x xs)
  show ?case
  proof (cases "P x")
    case True
    with Cons.prems show ?thesis by simp
  next
    case False
    with Cons.prems obtain k where k: "findIndex P xs = Some k" "i = Suc k"
      by auto
    from Cons.IH [OF k(1)] False k(2) show ?thesis
      by (auto simp: nth_Cons split: nat.splits)
  qed
qed

lemma findIndex_None: "findIndex P xs = None \<longleftrightarrow> (\<forall>x\<in>set xs. \<not> P x)"
  by (induction xs) auto

lemma handleLaneInput_found:
  assumes "gameState g = PLAYING"
    and "0 \<le> getCurrentTime (audio g) t"
    and "findIndex (hittable l (getCurrentTime (audio g) t)) (beatsRef g) = Some i"
  shows "handleLaneInput t rnd l g =
     (g\<lparr>beatsRef := (beatsRef g)[i := (beatsRef g ! i)\<lparr>hit := True\<rparr>],
        scoreRef := scoreRef g
          + (if \<bar>time (beatsRef g ! i) - getCurrentTime (audio g) t\<bar> < PERFECT_WINDOW
             then 300 else 100),
        comboRef := comboRef g + 1,
        heatRef := min 100 (heatRef g
          + (if \<bar>time (beatsRef g ! i) - getCurrentTime (audio g) t\<bar> < PERFECT_WINDOW
             then 10 else 5))\<rparr>,
      Some (if \<bar>time (beatsRef g ! i) - getCurrentTime (audio g) t\<bar> < PERFECT_WINDOW
            then (if comboRef g > 30 \<and> rnd > 0.8 then BLOOM else PERFECT)
            else GREAT))"
  using assms by (simp add: handleLaneInput_def Let_def)

lemma handleLaneInput_nothing:
  assumes "findIndex (hittable l (getCurrentTime (audio g) t)) (beatsRef g) = None"
  shows "handleLaneInput t rnd l g = (g, None)"
  using assms by (simp add: handleLaneInput_def Let_def)

lemma handleLaneInput_beats:
  "beatsRef (fst (handleLaneInput t rnd l g)) = beatsRef g
   \<or> (\<exists>i. findIndex (hittable l (getCurrentTime (audio g) t)) (beatsRef g) = Some i
         \<and> beatsRef (fst (handleLaneInput t rnd l g))
             = (beatsRef g)[i := (beatsRef g ! i)\<lparr>hit := True\<rparr>])"
  by (auto simp: handleLaneInput_def Let_def split: option.splits)

section \<open>Events outside the PLAYING phase\<close>

lemma step_not_PLAYING: "gameState g \<noteq> PLAYING \<Longrightarrow> step g e = g"
  by (cases e) (simp_all add: frame_def handleLaneInput_def)

lemma run_not_PLAYING: "gameState g \<noteq> PLAYING \<Longrightarrow> run g es = g"
  unfolding run_def by (induction es) (simp_all add: step_not_PLAYING)

section \<open>Notes across ticks and presses\<close>

lemma evolves_refl: "evolves b b"
  by (simp add: evolves_def)

lemma evolves_trans: "evolves a b \<Longrightarrow> evolves b c \<Longrightarrow> evolves a c"
  by (auto simp: evolves_def split: if_splits)

lemma evolves_missed: "overdue now b \<Longrightarrow> evolves b (b\<lparr>missed := True\<rparr>)"
  by (simp add: evolves_def overdue_def)

lemma evolves_hit: "hittable l now b \<Longrightarrow> evolves b (b\<lparr>hit := True\<rparr>)"
  by (simp add: evolves_def hittable_def)

lemma evolves_sweep:
  "list_all2 evolves bs (map (\<lambda>b. if overdue now b then b\<lparr>missed := True\<rparr> else b) bs)"
  by (induction bs) (simp_all add: evolves_refl evolves_missed)

lemma evolves_update:
  assumes "i < length bs" "hittable l now (bs ! i)"
  shows "list_all2 evolves bs (bs[i := (bs ! i)\<lparr>hit := True\<rparr>])"
  using assms
  by (auto simp: list_all2_conv_all_nth nth_list_update evolves_refl evolves_hit)

lemma evolves_frame: "list_all2 evolves (beatsRef g) (beatsRef (frame t g))"
proof (cases "gameState g = PLAYING")
  case True
  then have "frame t g = loop t g" by (simp add: frame_def)
  with loop_beats [of t g] show ?thesis
    by (auto simp: evolves_sweep list_all2_refl evolves_refl)
next
  case False
  then show ?thesis by (simp add: frame_def list_all2_refl evolves_refl)
qed

lemma evolves_handleLaneInput:
  "list_all2 evolves (beatsRef g) (beatsRef (fst (handleLaneInput t rnd l g)))"
  using handleLaneInput_beats [of t rnd l g]
  by (auto simp: list_all2_refl evolves_refl dest!: findIndex_Some intro: evolves_update)

lemma evolves_step: "list_all2 evolves (beatsRef g) (beatsRef (step g e))"
  by (cases e) (simp_all add: evolves_frame evolves_handleLaneInput)

lemma evolves_run: "list_all2 evolves (beatsRef g) (beatsRef (run g es))"
  unfolding run_def
proof (induction es arbitrary: g)
  case Nil
  show ?case by (simp add: list_all2_refl evolves_refl)
next
  case (Cons e es)
  have "list_all2 evolves (beatsRef g) (beatsRef (step g e))"
    by (rule evolves_step)
  moreover have "list_all2 evolves (beatsRef (step g e)) (beatsRef (foldl step (step g e) es))"
    by (rule Cons.IH)
  ultimately have "list_all2 evolves (beatsRef g) (beatsRef (foldl step (step g e) es))"
    by (rule list_all2_trans [rotated]) (rule evolves_trans)
  then show ?case by simp
qed

section \<open>Heat across ticks and presses\<close>

lemma handleLaneInput_heat:
  assumes "0 \<le> heatRef g" "heatRef g \<le> 100"
  shows "0 \<le> heatRef (fst (handleLaneInput t rnd l g))
       \<and> heatRef (fst (handleLaneInput t rnd l g)) \<le> 100"
  using assms by (auto simp: handleLaneInput_def Let_def split: option.splits)

lemma loop_heat:
  assumes "0 \<le> heatRef g" "heatRef g \<le> 100"
  shows "0 \<le> heatRef (loop t g) \<and> heatRef (loop t g) \<le> 100"
proof (cases "\<not> (getCurrentTime (audio g) t > getDuration (audio g) + 2 \<and> getDuration (audio g) > 0)
              \<and> 0 < getCurrentTime (audio g) t")
  case True
  have "0 \<le> max 0 (heatRef g - 0.15)" "max 0 (heatRef g - 0.15) \<le> 100"
    using assms by simp_all
  then show ?thesis
    using True by (simp add: loop_sweep checkMisses_heat_bounds)
next
  case False
  then have "heatRef (loop t g) = max 0 (heatRef g - 0.15)"
    by (auto simp: loop_def Let_def)
  then show ?thesis
    using assms by simp
qed

lemma step_heat:
  assumes "0 \<le> heatRef g" "heatRef g \<le> 100"
  shows "0 \<le> heatRef (step g e) \<and> heatRef (step g e) \<le> 100"
  using assms by (cases e) (simp_all add: frame_def loop_heat handleLaneInput_heat)

lemma run_heat:
  assumes "0 \<le> heatRef g" "heatRef g \<le> 100"
  shows "0 \<le> heatRef (run g es) \<and> heatRef (run g es) \<le> 100"
  using assms unfolding run_def
proof (induction es arbitrary: g)
  case Nil
  then show ?case by simp
next
  case (Cons e es)
  from step_heat [OF Cons.prems, of e] Cons.IH [of "step g e"] show ?case
    by simp
qed

section \<open>Properties of chart loading\<close>

lemma startGame_cases:
  "startGame P t ov g =
     (if \<not> isReady (audio g) then Alerted NeedAudio g
      else case beatData P ov (rawBeatsInput g) of
             Inl a \<Rightarrow> Alerted a g
           | Inr v \<Rightarrow>
              (case v of
                 JArr bs \<Rightarrow>
                   (case parseBeats 0 bs of
                      None \<Rightarrow> Alerted InvalidChart g
                    | Some ps \<Rightarrow>
                       if sort_throws ps then Alerted InvalidChart g
                       else
                        (case those (map as_Beat ps) of
                          None \<Rightarrow>
                            Started_any \<lparr>gameState = PLAYING, beatsRef = ps,
                                      scoreRef = 0, comboRef = 0, heatRef = 0,
                                      rawBeatsInput = rawBeatsInput g,
                                      audio = play 3 t (audio g)\<rparr>
                        | Some parsedBeats \<Rightarrow>
                            Started (g\<lparr>beatsRef := sort_key time parsedBeats,
                                  scoreRef := 0, comboRef := 0, heatRef := 0,
                                  gameState := PLAYING,
                                  audio := play 3 t (audio g)\<rparr>)))
               | _ \<Rightarrow> Alerted InvalidChart g))"
  by (simp add: startGame_def split: sum.splits js.splits)

lemma startGame_Started:
  assumes "startGame P t ov g = Started g'"
  shows "\<exists>bs. g' = g\<lparr>beatsRef := bs, scoreRef := 0, comboRef := 0, heatRef := 0,
                      gameState := PLAYING, audio := play 3 t (audio g)\<rparr>"
  using assms
  by (auto simp: startGame_def split: if_splits sum.splits js.splits option.splits)

lemma parseBeat_None: "parseBeat i b = None \<longleftrightarrow> b = JNull \<or> b = JUndefined"
  by (cases b) (simp_all add: parseBeat_def)

lemma parseBeats_None:
  "parseBeats i bs = None \<longleftrightarrow> JNull \<in> set bs \<or> JUndefined \<in> set bs"
proof (induction bs arbitrary: i)
  case Nil
  show ?case by simp
next
  case (Cons b bs)
  show ?case
  proof (cases "parseBeat i b")
    case None
    then show ?thesis
      using parseBeat_None [of i b] by auto
  next
    case (Some p)
    then have "b \<noteq> JNull" "b \<noteq> JUndefined"
      using parseBeat_None [of i b] by auto
    then show ?thesis
      using Some Cons.IH [of "Suc i"] by (auto split: option.splits)
  qed
qed

lemma parseBeats_nth:
  "parseBeats k bs = Some ps \<Longrightarrow>
     length ps = length bs \<and> (\<forall>i<length bs. parseBeat (k + i) (bs ! i) = Some (ps ! i))"
proof (induction bs arbitrary: k ps)
  case Nil
  then show ?case by simp
next
  case (Cons b bs)
  from Cons.prems obtain p ps' where p: "parseBeat k b = Some p"
    and ps': "parseBeats (Suc k) bs = Some ps'" and ps: "ps = p # ps'"
    by (auto split: option.splits)
  from Cons.IH [OF ps'] p ps show ?case
    by (auto simp: nth_Cons split: nat.splits)
qed

lemma those_map_nth:
  "those (map f xs) = Some ys \<Longrightarrow>
     length ys = length xs \<and> (\<forall>i<length xs. f (xs ! i) = Some (ys ! i))"
proof (induction xs arbitrary: ys)
  case Nil
  then show ?case by simp
next
  case (Cons x xs)
  from Cons.prems obtain y ys' where y: "f x = Some y"
    and ys': "those (map f xs) = Some ys'" and ys: "ys = y # ys'"
    by (auto split: option.splits)
  from Cons.IH [OF ys'] y ys show ?case
    by (auto simp: nth_Cons split: nat.splits)
qed

text \<open>
What \<^verbatim>\<open>startGame\<close> stores for entry \<open>i\<close> of the payload, before sorting.
\<close>

lemma startGame_chart:
  assumes "startGame P t ov g = Started g'"
  shows "isReady (audio g) \<and> (\<exists>bs ps parsed.
           beatData P ov (rawBeatsInput g) = Inr (JArr bs)
         \<and> beatsRef g' = sort_key time parsed
         \<and> length ps = length bs \<and> length parsed = length bs
         \<and> (\<forall>i<length bs. parseBeat i (bs ! i) = Some (ps ! i)
                           \<and> as_Beat (ps ! i) = Some (parsed ! i)))"
proof -
  from assms have ready: "isReady (audio g)"
    by (auto simp: startGame_cases split: if_splits)
  from assms ready obtain bs where bs: "beatData P ov (rawBeatsInput g) = Inr (JArr bs)"
    by (auto simp: startGame_cases split: sum.splits js.splits)
  from assms ready bs obtain ps where ps: "parseBeats 0 bs = Some ps"
    by (auto simp: startGame_cases split: option.splits if_splits)
  from assms ready bs ps obtain parsed where parsed: "those (map as_Beat ps) = Some parsed"
    and g': "beatsRef g' = sort_key time parsed"
    by (auto simp: startGame_cases split: option.splits if_splits)
  from parseBeats_nth [OF ps] those_map_nth [OF parsed] bs g' ready show ?thesis
    by auto
qed

lemma parseBeat_as_Beat:
  assumes "parseBeat i e = Some p" "as_Beat p = Some b"
  shows "id_beat b = i \<and> \<not> hit b \<and> \<not> missed b
       \<and> ((\<exists>n. e = JNum n) \<longrightarrow> lane b = 1 \<and> JNum (time b) = e)
       \<and> ((\<forall>n. e \<noteq> JNum n) \<longrightarrow>
            get_field e ''time'' = Some (JNum (time b))
          \<and> (get_field e ''lane'' = Some JUndefined \<or> get_field e ''lane'' = Some JNull
               \<longrightarrow> lane b = 1)
          \<and> (\<forall>l. get_field e ''lane'' = Some (JNum l) \<longrightarrow> lane b = l))"
  using assms
  by (cases e)
     (auto simp: parseBeat_def as_Beat_def nullish_or_1_def split: option.splits js.splits if_splits)

lemma sorted_wrt_filter_nth:
  "sorted_wrt R (filter P ys) \<Longrightarrow> i < j \<Longrightarrow> j < length ys \<Longrightarrow> P (ys ! i) \<Longrightarrow> P (ys ! j)
     \<Longrightarrow> R (ys ! i) (ys ! j)"
proof (induction ys arbitrary: i j)
  case Nil
  then show ?case by simp
next
  case (Cons y ys)
  from Cons.prems(2) obtain j' where j: "j = Suc j'"
    by (cases j) auto
  show ?case
  proof (cases i)
    case 0
    with Cons.prems j have "P y" "ys ! j' \<in> set (filter P ys)"
      by auto
    with Cons.prems(1) have "R y (ys ! j')"
      by simp
    with 0 j show ?thesis by simp
  next
    case (Suc i')
    from Cons.prems(1) have "sorted_wrt R (filter P ys)"
      by (simp split: if_splits)
    from Cons.IH [OF this, of i' j'] Cons.prems Suc j show ?thesis
      by simp
  qed
qed

lemma chart_ordered_sort_key:
  assumes "\<forall>i<length xs. id_beat (xs ! i) = i"
  shows "chart_ordered (sort_key time xs)"
proof -
  let ?s = "sort_key time xs"
  have ids: "sorted_wrt (\<lambda>a b. id_beat a < id_beat b) xs"
    using assms by (simp add: sorted_wrt_iff_nth_less)
  have "time (?s ! i) < time (?s ! j)
        \<or> (time (?s ! i) = time (?s ! j) \<and> id_beat (?s ! i) < id_beat (?s ! j))"
    if ij: "i < j" "j < length ?s" for i j
  proof -
    have "sorted (map time ?s)"
      by (rule sorted_sort_key)
    with ij have le: "time (?s ! i) \<le> time (?s ! j)"
      using sorted_nth_mono [of "map time ?s" i j] by simp
    show ?thesis
    proof (cases "time (?s ! i) = time (?s ! j)")
      case False
      with le show ?thesis by simp
    next
      case True
      have "filter (\<lambda>y. time y = time (?s ! j)) ?s = filter (\<lambda>y. time y = time (?s ! j)) xs"
        by (rule sort_key_stable)
      with ids have "sorted_wrt (\<lambda>a b. id_beat a < id_beat b)
                       (filter (\<lambda>y. time y = time (?s ! j)) ?s)"
        by (simp add: sorted_wrt_filter)
      from sorted_wrt_filter_nth [OF this ij] True show ?thesis
        by simp
    qed
  qed
  then show ?thesis
    by (simp add: chart_ordered_def sorted_wrt_iff_nth_less)
qed

lemma startGame_chart_ordered:
  assumes "startGame P t ov g = Started g'"
  shows "chart_ordered (beatsRef g')"
proof -
  from startGame_chart [OF assms] obtain bs ps parsed where
    g': "beatsRef g' = sort_key time parsed" and len: "length parsed = length bs"
    and nth: "\<forall>i<length bs. parseBeat i (bs ! i) = Some (ps ! i)
                           \<and> as_Beat (ps ! i) = Some (parsed ! i)"
    by blast
  have "\<forall>i<length parsed. id_beat (parsed ! i) = i"
    using nth len parseBeat_as_Beat by auto
  then show ?thesis
    unfolding g' by (rule chart_ordered_sort_key)
qed

lemma evolves_chart_ordered:
  assumes "list_all2 evolves xs ys" "chart_ordered xs"
  shows "chart_ordered ys"
proof -
  have len: "length ys = length xs"
    using assms(1) by (simp add: list_all2_lengthD)
  have same: "time (ys ! i) = time (xs ! i) \<and> id_beat (ys ! i) = id_beat (xs ! i)"
    if "i < length xs" for i
  proof -
    from assms(1) that have "evolves (xs ! i) (ys ! i)"
      by (rule list_all2_nthD)
    then show ?thesis
      by (auto simp: evolves_def split: if_splits)
  qed
  show ?thesis
    using assms(2) len same
    by (simp add: chart_ordered_def sorted_wrt_iff_nth_less)
qed

lemma chart_ordered_times:
  assumes "chart_ordered bs" "i \<le> j" "j < length bs"
  shows "time (bs ! i) \<le> time (bs ! j)"
proof (cases "i = j")
  case True
  then show ?thesis by simp
next
  case False
  with assms(2) have "i < j" by simp
  with assms(1,3) have "time (bs ! i) < time (bs ! j)
        \<or> (time (bs ! i) = time (bs ! j) \<and> id_beat (bs ! i) < id_beat (bs ! j))"
    by (simp add: chart_ordered_def sorted_wrt_iff_nth_less)
  then show ?thesis by auto
qed

lemma parseBeat_time_throws:
  assumes "parseBeat i e = Some p"
  shows "ToPrimitive_throws (time p)
           \<longleftrightarrow> (\<exists>v. get_field e ''time'' = Some v \<and> ToPrimitive_throws v)"
  using assms by (cases e) (auto simp: parseBeat_def split: option.splits)

lemma parseBeats_time_throws:
  "parseBeats k bs = Some ps \<Longrightarrow>
     list_ex (\<lambda>p. ToPrimitive_throws (time p)) ps
       \<longleftrightarrow> (\<exists>e\<in>set bs. \<exists>v. get_field e ''time'' = Some v \<and> ToPrimitive_throws v)"
proof (induction bs arbitrary: k ps)
  case Nil
  then show ?case by simp
next
  case (Cons b bs)
  from Cons.prems obtain p ps' where p: "parseBeat k b = Some p"
    and ps': "parseBeats (Suc k) bs = Some ps'" and ps: "ps = p # ps'"
    by (auto split: option.splits)
  from Cons.IH [OF ps'] parseBeat_time_throws [OF p] ps show ?case
    by simp
qed

lemma sort_throws_payload:
  assumes "parseBeats 0 bs = Some ps"
  shows "sort_throws ps \<longleftrightarrow>
           2 \<le> length bs
         \<and> (\<exists>e\<in>set bs. \<exists>v. get_field e ''time'' = Some v \<and> ToPrimitive_throws v)"
  using parseBeats_nth [OF assms] parseBeats_time_throws [OF assms]
  by (simp add: sort_throws_def)

lemma as_Beat_any_Beat: "as_Beat p = Some b \<Longrightarrow> any_Beat b = p"
  by (cases p) (auto simp: as_Beat_def any_Beat_def split: js.splits)

lemma those_as_Beat_any:
  "those (map as_Beat ps) = Some parsed \<Longrightarrow> map any_Beat parsed = ps"
proof (induction ps arbitrary: parsed)
  case Nil
  then show ?case by simp
next
  case (Cons p ps)
  from Cons.prems obtain b bs where b: "as_Beat p = Some b"
    and bs: "those (map as_Beat ps) = Some bs" and parsed: "parsed = b # bs"
    by (auto split: option.splits)
  from Cons.IH [OF bs] as_Beat_any_Beat [OF b] parsed show ?case
    by simp
qed

text \<open>
The outcome of \<^verbatim>\<open>startGame\<close> on an array that passes the map and the sort.
\<close>

lemma startGame_accepted:
  assumes "isReady (audio g)"
    and "beatData P ov (rawBeatsInput g) = Inr (JArr bs)"
    and "parseBeats 0 bs = Some ps"
    and "\<not> sort_throws ps"
  shows "(\<forall>a g'. startGame P t ov g \<noteq> Alerted a g')
       \<and> phase_after (startGame P t ov g) = PLAYING
       \<and> set (chart_after (startGame P t ov g)) = set ps
       \<and> length (chart_after (startGame P t ov g)) = length ps"
proof (cases "those (map as_Beat ps)")
  case None
  with assms show ?thesis
    by (simp add: startGame_cases phase_after_def chart_after_def)
next
  case (Some parsed)
  have "set (map any_Beat (sort_key time parsed)) = set (map any_Beat parsed)"
    by simp
  also have "\<dots> = set ps"
    using those_as_Beat_any [OF Some] by simp
  finally have "set (map any_Beat (sort_key time parsed)) = set ps" .
  moreover have "length parsed = length ps"
    using those_map_nth [OF Some] by simp
  ultimately show ?thesis
    using assms Some by (simp add: startGame_cases phase_after_def chart_after_def)
qed

lemma startGame_rejected:
  assumes "\<not> (isReady (audio g)
              \<and> (\<exists>bs ps. beatData P ov (rawBeatsInput g) = Inr (JArr bs)
                     \<and> parseBeats 0 bs = Some ps \<and> \<not> sort_throws ps))"
  shows "\<exists>a. startGame P t ov g = Alerted a g"
proof (cases "isReady (audio g)")
  case False
  then show ?thesis by (simp add: startGame_cases)
next
  case ready: True
  show ?thesis
  proof (cases "beatData P ov (rawBeatsInput g)")
    case (Inl a)
    with ready show ?thesis by (simp add: startGame_cases)
  next
    case (Inr v)
    show ?thesis
    proof (cases "\<exists>bs. v = JArr bs")
      case False
      with ready Inr show ?thesis
        by (cases v) (simp_all add: startGame_cases)
    next
      case True
      then obtain bs where v: "v = JArr bs" ..
      show ?thesis
      proof (cases "parseBeats 0 bs")
        case None
        with ready Inr v show ?thesis by (simp add: startGame_cases)
      next
        case (Some ps)
        with assms ready Inr v have "sort_throws ps" by simp
        with ready Inr v Some show ?thesis by (simp add: startGame_cases)
      qed
    qed
  qed
qed

lemma parseBeat_lane:
  assumes "parseBeat i e = Some p"
  shows "id_beat p = i
       \<and> ((\<exists>n. e = JNum n) \<longrightarrow> lane p = JNum 1)
       \<and> ((\<forall>n. e \<noteq> JNum n)
            \<and> (get_field e ''lane'' = Some JUndefined \<or> get_field e ''lane'' = Some JNull)
            \<longrightarrow> lane p = JNum 1)
       \<and> (\<forall>l. (\<forall>n. e \<noteq> JNum n) \<and> get_field e ''lane'' = Some l
               \<and> l \<noteq> JUndefined \<and> l \<noteq> JNull \<longrightarrow> lane p = l)"
  using assms
  by (cases e) (auto simp: parseBeat_def nullish_or_1_def split: option.splits)

lemma parseBeat_lane_given:
  assumes "parseBeat i e = Some p"
  shows "lane p = JNum 1
       \<or> ((\<forall>n. e \<noteq> JNum n) \<and> get_field e ''lane'' = Some (lane p)
           \<and> lane p \<noteq> JUndefined \<and> lane p \<noteq> JNull)"
  using assms
  by (cases e) (auto simp: parseBeat_def nullish_or_1_def split: option.splits if_splits)

section \<open>Judging a press\<close>

text \<open>
  C1, as stated, says that every judged press with \<open>diff < 0.05\<close> is rated PERFECT. With a
  combo of 31 and a random draw of 0.9, a press 0.02 seconds from the note is rated BLOOM.
\<close>

theorem handleLaneInput_bloom_counterexample:
  "gameState (g_one 31) = PLAYING
   \<and> 0 \<le> getCurrentTime (audio (g_one 31)) 4.02
   \<and> \<bar>time (hd (beatsRef (g_one 31))) - getCurrentTime (audio (g_one 31)) 4.02\<bar> < 0.05
   \<and> snd (handleLaneInput 4.02 0.9 1 (g_one 31)) = Some BLOOM
   \<and> snd (handleLaneInput 4.02 0.9 1 (g_one 31)) \<noteq> Some PERFECT"
  by (simp add: g_one_def getCurrentTime_def handleLaneInput_def hittable_def
      HIT_WINDOW_def PERFECT_WINDOW_def)

text \<open>
  C1, amended. A press in the PLAYING phase at a clock reading \<open>now \<ge> 0\<close> that finds a
  hittable note, with \<open>diff = \<bar>time - now\<bar>\<close>: if \<open>diff < 0.05\<close> the rating is PERFECT, or
  BLOOM when the combo before the press exceeds 30 and the random draw exceeds 0.8, and the
  press adds exactly 300 to the score and 10 to the heat, capped at 100; if
  \<open>0.05 \<le> diff\<close>, so also at exactly 0.05, the rating is GREAT and the press adds exactly 100
  and 5; in both cases \<open>diff < 0.15\<close> and the combo grows by exactly 1. When every note is at
  least 0.15 away, so also at exactly 0.15, the press judges nothing and changes nothing.
\<close>

theorem handleLaneInput_rating:
  assumes "gameState g = PLAYING"
    and "now = getCurrentTime (audio g) t"
    and "0 \<le> now"
  shows "(\<forall>i. findIndex (hittable l now) (beatsRef g) = Some i \<longrightarrow>
            (\<bar>time (beatsRef g ! i) - now\<bar> < 0.05 \<longrightarrow>
               snd (handleLaneInput t rnd l g)
                 = Some (if comboRef g > 30 \<and> rnd > 0.8 then BLOOM else PERFECT)
             \<and> scoreRef (fst (handleLaneInput t rnd l g)) = scoreRef g + 300
             \<and> heatRef (fst (handleLaneInput t rnd l g)) = min 100 (heatRef g + 10))
          \<and> (0.05 \<le> \<bar>time (beatsRef g ! i) - now\<bar> \<longrightarrow>
               snd (handleLaneInput t rnd l g) = Some GREAT
             \<and> scoreRef (fst (handleLaneInput t rnd l g)) = scoreRef g + 100
             \<and> heatRef (fst (handleLaneInput t rnd l g)) = min 100 (heatRef g + 5))
          \<and> \<bar>time (beatsRef g ! i) - now\<bar> < 0.15
          \<and> comboRef (fst (handleLaneInput t rnd l g)) = comboRef g + 1)
       \<and> ((\<forall>b\<in>set (beatsRef g). 0.15 \<le> \<bar>time b - now\<bar>) \<longrightarrow>
            handleLaneInput t rnd l g = (g, None))"
proof -
  have found: "(\<bar>time (beatsRef g ! i) - now\<bar> < 0.05 \<longrightarrow>
               snd (handleLaneInput t rnd l g)
                 = Some (if comboRef g > 30 \<and> rnd > 0.8 then BLOOM else PERFECT)
             \<and> scoreRef (fst (handleLaneInput t rnd l g)) = scoreRef g + 300
             \<and> heatRef (fst (handleLaneInput t rnd l g)) = min 100 (heatRef g + 10))
          \<and> (0.05 \<le> \<bar>time (beatsRef g ! i) - now\<bar> \<longrightarrow>
               snd (handleLaneInput t rnd l g) = Some GREAT
             \<and> scoreRef (fst (handleLaneInput t rnd l g)) = scoreRef g + 100
             \<and> heatRef (fst (handleLaneInput t rnd l g)) = min 100 (heatRef g + 5))
          \<and> \<bar>time (beatsRef g ! i) - now\<bar> < 0.15
          \<and> comboRef (fst (handleLaneInput t rnd l g)) = comboRef g + 1"
    if i: "findIndex (hittable l now) (beatsRef g) = Some i" for i
  proof -
    from findIndex_Some [OF i] have "hittable l now (beatsRef g ! i)"
      by simp
    then have w: "\<bar>time (beatsRef g ! i) - now\<bar> < 0.15"
      by (simp add: hittable_def HIT_WINDOW_def)
    from i assms have eq: "handleLaneInput t rnd l g = 
     (g\<lparr>beatsRef := (beatsRef g)[i := (beatsRef g ! i)\<lparr>hit := True\<rparr>],
        scoreRef := scoreRef g
          + (if \<bar>time (beatsRef g ! i) - now\<bar> < PERFECT_WINDOW
             then 300 else 100),
        comboRef := comboRef g + 1,
        heatRef := min 100 (heatRef g
          + (if \<bar>time (beatsRef g ! i) - now\<bar> < PERFECT_WINDOW
             then 10 else 5))\<rparr>,
      Some (if \<bar>time (beatsRef g ! i) - now\<bar> < PERFECT_WINDOW
            then (if comboRef g > 30 \<and> rnd > 0.8 then BLOOM else PERFECT)
            else GREAT))"
      using handleLaneInput_found [of g t l i rnd] by simp
    show ?thesis
      unfolding eq using w by (simp add: PERFECT_WINDOW_def)
  qed
  have none: "handleLaneInput t rnd l g = (g, None)"
    if far: "\<forall>b\<in>set (beatsRef g). 0.15 \<le> \<bar>time b - now\<bar>"
  proof -
    from far have "\<forall>b\<in>set (beatsRef g). \<not> hittable l now b"
      by (auto simp: hittable_def HIT_WINDOW_def)
    then have "findIndex (hittable l now) (beatsRef g) = None"
      by (simp add: findIndex_None)
    then show ?thesis
      using assms(2) by (simp add: handleLaneInput_nothing)
  qed
  from found none show ?thesis by blast
qed

theorem handleLaneInput_rating_witness:
  "handleLaneInput 4.02 0 1 (g_one 0)
     = ((g_one 0)\<lparr>beatsRef := [\<lparr>id_beat = 0, time = 1, lane = 1, hit = True, missed = False\<rparr>],
          scoreRef := 300, comboRef := 1, heatRef := 100\<rparr>, Some PERFECT)
   \<and> snd (handleLaneInput 4.05 0 1 (g_one 0)) = Some GREAT
   \<and> scoreRef (fst (handleLaneInput 4.05 0 1 (g_one 0))) = 100
   \<and> heatRef (fst (handleLaneInput 4.05 0 1 (g_one 0))) = 100
   \<and> handleLaneInput 4.15 0 1 (g_one 0) = (g_one 0, None)"
  using handleLaneInput_rating [of "g_one 0" "1.02" "4.02" 1 0]
        handleLaneInput_rating [of "g_one 0" "1.05" "4.05" 1 0]
        handleLaneInput_rating [of "g_one 0" "1.15" "4.15" 1 0]
  by (simp add: g_one_def getCurrentTime_def hittable_def HIT_WINDOW_def handleLaneInput_def
      PERFECT_WINDOW_def)

section \<open>The end of the song\<close>

text \<open>
  C2, as stated, says that the tick ends the game exactly when the clock exceeds the
  duration of the chart plus 2. The loop compares with the duration of the audio buffer. With
  a 30 second track whose only note is at 32, the tick at clock 32.5 ends the game, short of
  the note's 34; with a 30 second track whose only note is at 1, the tick at clock 7 does
  not, although 7 exceeds 3.
\<close>

theorem frame_finish_not_chart_duration_counterexample:
  "gameState g_late = PLAYING
   \<and> chartDuration (beatsRef g_late) = 32
   \<and> getCurrentTime (audio g_late) 35.5 = 32.5
   \<and> \<not> (getCurrentTime (audio g_late) 35.5 > chartDuration (beatsRef g_late) + 2.0
         \<and> chartDuration (beatsRef g_late) > 0)
   \<and> gameState (frame 35.5 g_late) = FINISHED
   \<and> gameState (g_one 0) = PLAYING
   \<and> chartDuration (beatsRef (g_one 0)) = 1
   \<and> getCurrentTime (audio (g_one 0)) 10 = 7
   \<and> getCurrentTime (audio (g_one 0)) 10 > chartDuration (beatsRef (g_one 0)) + 2.0
   \<and> chartDuration (beatsRef (g_one 0)) > 0
   \<and> gameState (frame 10 (g_one 0)) = PLAYING"
  by (simp add: g_late_def g_one_def chartDuration_def getCurrentTime_def getDuration_def
      frame_def loop_def HIT_WINDOW_def)

text \<open>
  C2, amended. A tick in the PLAYING phase ends in FINISHED exactly when the clock exceeds
  the duration plus 2 and the duration is positive, and in PLAYING otherwise, where the
  duration is that of the loaded audio buffer, \<^verbatim>\<open>audioService.getDuration()\<close>, and 0
  without a buffer. Once a tick has ended in FINISHED, no later tick or press changes
  anything: no frame runs, and the transition cannot fire again.
\<close>

theorem frame_finishes_exactly_when:
  assumes "gameState g = PLAYING"
  shows "(gameState (frame t g) = FINISHED
           \<longleftrightarrow> getCurrentTime (audio g) t > getDuration (audio g) + 2 \<and> getDuration (audio g) > 0)
       \<and> (gameState (frame t g) \<noteq> FINISHED \<longrightarrow> gameState (frame t g) = PLAYING)
       \<and> (gameState (frame t g) = FINISHED \<longrightarrow> run (frame t g) es = frame t g)"
proof -
  have a: "gameState (frame t g) = FINISHED
           \<longleftrightarrow> getCurrentTime (audio g) t > getDuration (audio g) + 2 \<and> getDuration (audio g) > 0"
    using assms by (auto simp: frame_def loop_def Let_def split: prod.splits)
  have b: "gameState (frame t g) \<noteq> FINISHED \<longrightarrow> gameState (frame t g) = PLAYING"
    using assms by (auto simp: frame_def loop_def Let_def split: prod.splits)
  have c: "gameState (frame t g) = FINISHED \<longrightarrow> run (frame t g) es = frame t g"
    by (simp add: run_not_PLAYING)
  from a b c show ?thesis by blast
qed

theorem frame_finishes_exactly_when_witness:
  "gameState g_late = PLAYING
   \<and> gameState (frame 35.5 g_late) = FINISHED
   \<and> run (frame 35.5 g_late) [Frame 36, LaneInput 36 0 1, Frame 37] = frame 35.5 g_late
   \<and> gameState (frame 34 g_late) = PLAYING"
  using frame_finishes_exactly_when [of g_late "35.5" "[Frame 36, LaneInput 36 0 1, Frame 37]"]
        frame_finishes_exactly_when [of g_late 34 "[]"]
  by (simp add: g_late_def getCurrentTime_def getDuration_def)

section \<open>The miss sweep on a tick\<close>

text \<open>
  C3, as stated, says that every tick with a positive clock marks the overdue notes. On the
  tick that ends the game the loop returns before the sweep: with a 30 second track and a
  note at 32, the tick at clock 32.5 leaves the note unmarked and the combo at 5.
\<close>

theorem frame_sweep_skipped_on_finish_counterexample:
  "gameState g_late = PLAYING
   \<and> 0 < getCurrentTime (audio g_late) 35.5
   \<and> \<not> hit (hd (beatsRef g_late)) \<and> \<not> missed (hd (beatsRef g_late))
   \<and> getCurrentTime (audio g_late) 35.5 > time (hd (beatsRef g_late)) + 0.15
   \<and> \<not> missed (hd (beatsRef (frame 35.5 g_late)))
   \<and> comboRef (frame 35.5 g_late) = 5"
  by (simp add: g_late_def getCurrentTime_def getDuration_def frame_def loop_def)

text \<open>
  C3, amended. On a tick in the PLAYING phase with a positive clock that does not end the
  game, the sweep sets \<open>missed\<close> on exactly the notes with \<open>hit = false\<close>,
  \<open>missed = false\<close> and \<open>now > time + 0.15\<close> and leaves every other note as it is; with
  \<open>k\<close> such notes the combo is 0 when \<open>k > 0\<close> and unchanged otherwise, and the heat,
  after the decay of the tick, goes through \<open>h \<mapsto> max 0 (h - 15)\<close> once per note. On a
  tick with \<open>now \<le> 0\<close>, and on the tick that ends the game, no note and no combo changes
  and the heat only decays.
\<close>

theorem frame_miss_sweep:
  assumes "gameState g = PLAYING"
    and "now = getCurrentTime (audio g) t"
    and "k = length (filter (overdue now) (beatsRef g))"
  shows "(\<not> (now > getDuration (audio g) + 2 \<and> getDuration (audio g) > 0) \<and> 0 < now \<longrightarrow>
            beatsRef (frame t g)
              = map (\<lambda>b. if overdue now b then b\<lparr>missed := True\<rparr> else b) (beatsRef g)
          \<and> comboRef (frame t g) = (if k = 0 then comboRef g else 0)
          \<and> heatRef (frame t g) = ((\<lambda>h. max 0 (h - 15)) ^^ k) (max 0 (heatRef g - 0.15)))
       \<and> (now \<le> 0 \<or> (now > getDuration (audio g) + 2 \<and> getDuration (audio g) > 0) \<longrightarrow>
            beatsRef (frame t g) = beatsRef g
          \<and> comboRef (frame t g) = comboRef g
          \<and> heatRef (frame t g) = max 0 (heatRef g - 0.15))"
proof -
  have swept: "beatsRef (frame t g)
              = map (\<lambda>b. if overdue now b then b\<lparr>missed := True\<rparr> else b) (beatsRef g)
          \<and> comboRef (frame t g) = (if k = 0 then comboRef g else 0)
          \<and> heatRef (frame t g) = ((\<lambda>h. max 0 (h - 15)) ^^ k) (max 0 (heatRef g - 0.15))"
    if "\<not> (now > getDuration (audio g) + 2 \<and> getDuration (audio g) > 0)" "0 < now"
  proof -
    have "frame t g = loop t g"
      using assms(1) by (simp add: frame_def)
    then show ?thesis
      using that assms(2,3)
      by (simp add: loop_sweep checkMisses_beats checkMisses_combo checkMisses_heat_funpow)
  qed
  have untouched: "beatsRef (frame t g) = beatsRef g
          \<and> comboRef (frame t g) = comboRef g
          \<and> heatRef (frame t g) = max 0 (heatRef g - 0.15)"
    if "now \<le> 0 \<or> (now > getDuration (audio g) + 2 \<and> getDuration (audio g) > 0)"
    using that assms(1,2) by (auto simp: frame_def loop_def Let_def)
  from swept untouched show ?thesis by blast
qed

theorem frame_miss_sweep_witness:
  "gameState g_late = PLAYING
   \<and> map missed (beatsRef (frame 35.2 (g_late\<lparr>audio := (audio g_late)\<lparr>buffer := Some 40\<rparr>\<rparr>))) = [True]
   \<and> comboRef (frame 35.2 (g_late\<lparr>audio := (audio g_late)\<lparr>buffer := Some 40\<rparr>\<rparr>)) = 0
   \<and> heatRef (frame 35.2 (g_late\<lparr>audio := (audio g_late)\<lparr>buffer := Some 40\<rparr>\<rparr>)) = 24.85
   \<and> map missed (beatsRef (frame 2 g_late)) = [False]
   \<and> heatRef (frame 2 g_late) = 39.85"
  using frame_miss_sweep [of "g_late\<lparr>audio := (audio g_late)\<lparr>buffer := Some 40\<rparr>\<rparr>" "32.2" "35.2" 1]
        frame_miss_sweep [of g_late "- 1" 2 0]
  by (simp add: g_late_def getCurrentTime_def getDuration_def overdue_def HIT_WINDOW_def)

section \<open>Terminal flags\<close>

text \<open>
  C4. Over any sequence of ticks and presses the chart keeps its length and every note its
  \<^verbatim>\<open>id\<close>, \<^verbatim>\<open>time\<close> and \<^verbatim>\<open>lane\<close>; a note that is hit or missed keeps both
  flags as they are; a note that does not carry both flags never comes to carry both. The
  note a press judges and the notes a sweep marks are neither hit nor missed, so a resolved
  note takes part in neither. The replay button clears both flags of every note.
\<close>

theorem hit_missed_terminal:
  "length (beatsRef (run g es)) = length (beatsRef g)
   \<and> (\<forall>i<length (beatsRef g).
         id_beat (beatsRef (run g es) ! i) = id_beat (beatsRef g ! i)
       \<and> time (beatsRef (run g es) ! i) = time (beatsRef g ! i)
       \<and> lane (beatsRef (run g es) ! i) = lane (beatsRef g ! i)
       \<and> (hit (beatsRef g ! i) \<or> missed (beatsRef g ! i) \<longrightarrow>
            hit (beatsRef (run g es) ! i) = hit (beatsRef g ! i)
          \<and> missed (beatsRef (run g es) ! i) = missed (beatsRef g ! i))
       \<and> (\<not> (hit (beatsRef g ! i) \<and> missed (beatsRef g ! i)) \<longrightarrow>
            \<not> (hit (beatsRef (run g es) ! i) \<and> missed (beatsRef (run g es) ! i))))
   \<and> (\<forall>l now i. findIndex (hittable l now) (beatsRef g) = Some i \<longrightarrow>
         \<not> hit (beatsRef g ! i) \<and> \<not> missed (beatsRef g ! i))
   \<and> (\<forall>now b. overdue now b \<longrightarrow> \<not> hit b \<and> \<not> missed b)
   \<and> (\<forall>b\<in>set (beatsRef (replay t g)). \<not> hit b \<and> \<not> missed b)"
proof -
  have all: "list_all2 evolves (beatsRef g) (beatsRef (run g es))"
    by (rule evolves_run)
  then have len: "length (beatsRef (run g es)) = length (beatsRef g)"
    by (simp add: list_all2_lengthD)
  have each: "id_beat (beatsRef (run g es) ! i) = id_beat (beatsRef g ! i)
       \<and> time (beatsRef (run g es) ! i) = time (beatsRef g ! i)
       \<and> lane (beatsRef (run g es) ! i) = lane (beatsRef g ! i)
       \<and> (hit (beatsRef g ! i) \<or> missed (beatsRef g ! i) \<longrightarrow>
            hit (beatsRef (run g es) ! i) = hit (beatsRef g ! i)
          \<and> missed (beatsRef (run g es) ! i) = missed (beatsRef g ! i))
       \<and> (\<not> (hit (beatsRef g ! i) \<and> missed (beatsRef g ! i)) \<longrightarrow>
            \<not> (hit (beatsRef (run g es) ! i) \<and> missed (beatsRef (run g es) ! i)))"
    if "i < length (beatsRef g)" for i
  proof -
    from all that have "evolves (beatsRef g ! i) (beatsRef (run g es) ! i)"
      by (rule list_all2_nthD)
    then show ?thesis
      by (auto simp: evolves_def split: if_splits)
  qed
  have judged: "\<not> hit (beatsRef g ! i) \<and> \<not> missed (beatsRef g ! i)"
    if "findIndex (hittable l now) (beatsRef g) = Some i" for l now i
    using findIndex_Some [OF that] by (simp add: hittable_def)
  have swept: "\<not> hit b \<and> \<not> missed b" if "overdue now b" for now b
    using that by (simp add: overdue_def)
  have cleared: "\<forall>b\<in>set (beatsRef (replay t g)). \<not> hit b \<and> \<not> missed b"
    by (simp add: replay_def)
  from len each judged swept cleared show ?thesis
    by blast
qed

theorem hit_missed_terminal_witness:
  "map hit (beatsRef (run g_three [LaneInput 4 0 1, Frame 5.2])) = [True, False, False]
   \<and> map missed (beatsRef (run g_three [LaneInput 4 0 1, Frame 5.2])) = [False, True, False]
   \<and> hit (beatsRef (run (run g_three [LaneInput 4 0 1, Frame 5.2])
                        [LaneInput 4 0 1, LaneInput 5 0 0, Frame 9]) ! 0)
   \<and> \<not> missed (beatsRef (run (run g_three [LaneInput 4 0 1, Frame 5.2])
                        [LaneInput 4 0 1, LaneInput 5 0 0, Frame 9]) ! 0)
   \<and> \<not> hit (beatsRef (run (run g_three [LaneInput 4 0 1, Frame 5.2])
                        [LaneInput 4 0 1, LaneInput 5 0 0, Frame 9]) ! 1)
   \<and> missed (beatsRef (run (run g_three [LaneInput 4 0 1, Frame 5.2])
                        [LaneInput 4 0 1, LaneInput 5 0 0, Frame 9]) ! 1)"
proof -
  let ?g = "run g_three [LaneInput 4 0 1, Frame 5.2]"
  let ?es = "[LaneInput 4 0 1, LaneInput 5 0 0, Frame 9]"
  have bs: "beatsRef ?g = [\<lparr>id_beat = 0, time = 1, lane = 1, hit = True, missed = False\<rparr>,
                 \<lparr>id_beat = 1, time = 2, lane = 0, hit = False, missed = True\<rparr>,
                 \<lparr>id_beat = 2, time = 2.1, lane = 0, hit = False, missed = False\<rparr>]"
    by (simp add: g_three_def run_def frame_def loop_def handleLaneInput_def getCurrentTime_def
        getDuration_def hittable_def HIT_WINDOW_def PERFECT_WINDOW_def)
  have "\<forall>i<length (beatsRef ?g).
          hit (beatsRef ?g ! i) \<or> missed (beatsRef ?g ! i) \<longrightarrow>
            hit (beatsRef (run ?g ?es) ! i) = hit (beatsRef ?g ! i)
          \<and> missed (beatsRef (run ?g ?es) ! i) = missed (beatsRef ?g ! i)"
    using hit_missed_terminal [of ?g ?es 0] by blast
  then have "hit (beatsRef (run ?g ?es) ! 0) = hit (beatsRef ?g ! 0)
          \<and> missed (beatsRef (run ?g ?es) ! 0) = missed (beatsRef ?g ! 0)
          \<and> hit (beatsRef (run ?g ?es) ! 1) = hit (beatsRef ?g ! 1)
          \<and> missed (beatsRef (run ?g ?es) ! 1) = missed (beatsRef ?g ! 1)"
    unfolding bs by simp
  then show ?thesis
    unfolding bs by simp
qed

section \<open>The note a press hits\<close>

text \<open>
  C5. In any state reached from a started game by ticks and presses, the chart is ordered
  by time, notes of equal time in input order. A press in the PLAYING phase at
  \<open>now \<ge> 0\<close> for which some note is hittable sets \<open>hit\<close> on exactly one note and changes
  no other: the first hittable note of the chart, whose time is the least among the
  hittable notes.
\<close>

theorem first_hittable_is_hit:
  assumes "startGame P t0 ov g0 = Started g1"
    and "g = run g1 es"
    and "gameState g = PLAYING"
    and "now = getCurrentTime (audio g) t"
    and "0 \<le> now"
    and "\<exists>b\<in>set (beatsRef g). hittable l now b"
  shows "chart_ordered (beatsRef g)
       \<and> (\<exists>i<length (beatsRef g).
             hittable l now (beatsRef g ! i)
           \<and> (\<forall>j<length (beatsRef g). hittable l now (beatsRef g ! j) \<longrightarrow>
                 i \<le> j \<and> time (beatsRef g ! i) \<le> time (beatsRef g ! j))
           \<and> beatsRef (fst (handleLaneInput t rnd l g))
               = (beatsRef g)[i := (beatsRef g ! i)\<lparr>hit := True\<rparr>])"
proof -
  have ordered: "chart_ordered (beatsRef g)"
    using startGame_chart_ordered [OF assms(1)] evolves_run [of g1 es] assms(2)
    by (auto intro: evolves_chart_ordered)
  from assms(6) obtain i where i: "findIndex (hittable l now) (beatsRef g) = Some i"
    using findIndex_None [of "hittable l now" "beatsRef g"] by (cases "findIndex (hittable l now) (beatsRef g)") auto
  from findIndex_Some [OF i] have first: "i < length (beatsRef g)"
    "hittable l now (beatsRef g ! i)" "\<forall>j<i. \<not> hittable l now (beatsRef g ! j)"
    by simp_all
  have earliest: "i \<le> j \<and> time (beatsRef g ! i) \<le> time (beatsRef g ! j)"
    if "j < length (beatsRef g)" "hittable l now (beatsRef g ! j)" for j
  proof -
    from first(3) that(2) have "i \<le> j"
      by (meson not_le)
    with ordered that(1) show ?thesis
      by (simp add: chart_ordered_times)
  qed
  have "beatsRef (fst (handleLaneInput t rnd l g)) = (beatsRef g)[i := (beatsRef g ! i)\<lparr>hit := True\<rparr>]"
    using handleLaneInput_found [of g t l i rnd] assms(3,4,5) i by simp
  with ordered first earliest show ?thesis
    by blast
qed

theorem first_hittable_is_hit_witness:
  "startGame JSON_parse_sample 0 None (g_setup ''[2.1, 2]'') = Started g_started
   \<and> hittable 1 2.08 (beatsRef (run g_started [Frame 1]) ! 0)
   \<and> hittable 1 2.08 (beatsRef (run g_started [Frame 1]) ! 1)
   \<and> map hit (beatsRef (fst (handleLaneInput 5.08 0 1 (run g_started [Frame 1]))))
       = [True, False]"
proof -
  let ?g = "run g_started [Frame 1]"
  have started: "startGame JSON_parse_sample 0 None (g_setup ''[2.1, 2]'') = Started g_started"
    by (simp add: startGame_def sort_throws_def beatData_def JSON_parse_sample_def g_setup_def isReady_def
        parseBeat_def as_Beat_def g_started_def play_def stop_def)
  have g: "?g = g_started"
    by (simp add: run_def frame_def loop_def g_started_def getCurrentTime_def getDuration_def)
  have playing: "gameState ?g = PLAYING"
    and now: "2.08 = getCurrentTime (audio ?g) 5.08" "(0::real) \<le> 2.08"
    and bs: "beatsRef ?g = [\<lparr>id_beat = 1, time = 2, lane = 1, hit = False, missed = False\<rparr>,
                 \<lparr>id_beat = 0, time = 2.1, lane = 1, hit = False, missed = False\<rparr>]"
    unfolding g by (simp_all add: g_started_def getCurrentTime_def)
  have h0: "hittable 1 2.08 (beatsRef ?g ! 0)" and h1: "hittable 1 2.08 (beatsRef ?g ! 1)"
    unfolding bs by (simp_all add: hittable_def HIT_WINDOW_def)
  then have some: "\<exists>b\<in>set (beatsRef ?g). hittable 1 2.08 b"
    unfolding bs by auto
  from first_hittable_is_hit [OF started refl playing now some, of 0]
  obtain i where i: "i < length (beatsRef ?g)"
      "\<forall>j<length (beatsRef ?g). hittable 1 2.08 (beatsRef ?g ! j) \<longrightarrow> i \<le> j"
      "beatsRef (fst (handleLaneInput 5.08 0 1 ?g))
         = (beatsRef ?g)[i := (beatsRef ?g ! i)\<lparr>hit := True\<rparr>]"
    by blast
  from i(2) h0 have "i = 0"
    unfolding bs by auto
  with i(3) have "map hit (beatsRef (fst (handleLaneInput 5.08 0 1 ?g))) = [True, False]"
    unfolding bs by simp
  with started h0 h1 show ?thesis
    by simp
qed

section \<open>Lanes of a loaded chart\<close>

text \<open>
  C6, as stated, says that a lane outside 0, 1, 2 is replaced by 1. The entry
  \<^verbatim>\<open>{time: 1, lane: 7}\<close> is loaded with lane 7.
\<close>

theorem startGame_keeps_lane_counterexample:
  "startGame JSON_parse_sample 0 (Some [entry_lane7]) (g_setup [])
     = Started ((g_setup [])\<lparr>
         beatsRef := [\<lparr>id_beat = 0, time = 1, lane = 7, hit = False, missed = False\<rparr>],
         scoreRef := 0, comboRef := 0, heatRef := 0, gameState := PLAYING,
         audio := play 3 0 (audio (g_setup []))\<rparr>)"
  by (simp add: startGame_def sort_throws_def beatData_def g_setup_def isReady_def parseBeat_def as_Beat_def
      entry_lane7_def nullish_or_1_def)

text \<open>
  C6, amended. Whether \<^verbatim>\<open>startGame\<close> accepts an array does not depend on any
  lane: with audio loaded, an array without a \<^verbatim>\<open>null\<close> or \<^verbatim>\<open>undefined\<close>
  element on whose times the sort does not throw is never answered with an alert, and the
  game starts. The chart then holds as many notes as the array has entries, one with
  \<^verbatim>\<open>id\<close> \<open>i\<close> for every entry \<open>i\<close>; its lane is 1 when the entry is a bare number or
  has no lane or a null lane, and is the entry's lane, unchanged, whatever else that is: a
  number outside 0, 1, 2 and a string are kept. Every note's lane is one of the numbers 0,
  1, 2 exactly when every lane given in the input is.
\<close>

theorem startGame_lane_default:
  assumes "isReady (audio g)"
    and "beatData P ov (rawBeatsInput g) = Inr (JArr bs)"
    and "JNull \<notin> set bs" and "JUndefined \<notin> set bs"
    and "\<not> (2 \<le> length bs
            \<and> (\<exists>e\<in>set bs. \<exists>v. get_field e ''time'' = Some v \<and> ToPrimitive_throws v))"
  shows "(\<forall>a g'. startGame P t ov g \<noteq> Alerted a g')
       \<and> phase_after (startGame P t ov g) = PLAYING
       \<and> length (chart_after (startGame P t ov g)) = length bs
       \<and> (\<forall>i<length bs. \<exists>b\<in>set (chart_after (startGame P t ov g)). id_beat b = i)
       \<and> (\<forall>b\<in>set (chart_after (startGame P t ov g)).
            id_beat b < length bs
          \<and> ((\<exists>n. bs ! id_beat b = JNum n) \<longrightarrow> lane b = JNum 1)
          \<and> ((\<forall>n. bs ! id_beat b \<noteq> JNum n)
               \<and> (get_field (bs ! id_beat b) ''lane'' = Some JUndefined
                  \<or> get_field (bs ! id_beat b) ''lane'' = Some JNull) \<longrightarrow> lane b = JNum 1)
          \<and> (\<forall>l. (\<forall>n. bs ! id_beat b \<noteq> JNum n)
               \<and> get_field (bs ! id_beat b) ''lane'' = Some l
               \<and> l \<noteq> JUndefined \<and> l \<noteq> JNull \<longrightarrow> lane b = l))
       \<and> ((\<forall>b\<in>set (chart_after (startGame P t ov g)). lane b \<in> {JNum 0, JNum 1, JNum 2}) \<longleftrightarrow>
            (\<forall>e\<in>set bs. \<forall>l. (\<forall>n. e \<noteq> JNum n) \<and> get_field e ''lane'' = Some l
                \<and> l \<noteq> JUndefined \<and> l \<noteq> JNull \<longrightarrow> l \<in> {JNum 0, JNum 1, JNum 2}))"
proof -
  let ?chart = "chart_after (startGame P t ov g)"
  from assms(3,4) obtain ps where ps: "parseBeats 0 bs = Some ps"
    using parseBeats_None [of 0 bs] by (cases "parseBeats 0 bs") auto
  from assms(5) have ok: "\<not> sort_throws ps"
    using sort_throws_payload [OF ps] by simp
  from startGame_accepted [OF assms(1,2) ps ok]
  have accepted: "\<forall>a g'. startGame P t ov g \<noteq> Alerted a g'"
    and playing: "phase_after (startGame P t ov g) = PLAYING"
    and chart: "set ?chart = set ps"
    and chart_len: "length ?chart = length ps"
    by simp_all
  from parseBeats_nth [OF ps] have len: "length ps = length bs"
    and nth: "\<forall>i<length bs. parseBeat i (bs ! i) = Some (ps ! i)"
    by simp_all
  from chart_len len have count: "length ?chart = length bs"
    by simp
  have entry: "id_beat (ps ! i) = i
       \<and> ((\<exists>n. bs ! i = JNum n) \<longrightarrow> lane (ps ! i) = JNum 1)
       \<and> ((\<forall>n. bs ! i \<noteq> JNum n)
            \<and> (get_field (bs ! i) ''lane'' = Some JUndefined
               \<or> get_field (bs ! i) ''lane'' = Some JNull)
            \<longrightarrow> lane (ps ! i) = JNum 1)
       \<and> (\<forall>l. (\<forall>n. bs ! i \<noteq> JNum n) \<and> get_field (bs ! i) ''lane'' = Some l
               \<and> l \<noteq> JUndefined \<and> l \<noteq> JNull \<longrightarrow> lane (ps ! i) = l)"
    if "i < length bs" for i
    using nth that parseBeat_lane [of i "bs ! i" "ps ! i"] by blast
  have given: "lane (ps ! i) = JNum 1
       \<or> ((\<forall>n. bs ! i \<noteq> JNum n) \<and> get_field (bs ! i) ''lane'' = Some (lane (ps ! i))
           \<and> lane (ps ! i) \<noteq> JUndefined \<and> lane (ps ! i) \<noteq> JNull)"
    if "i < length bs" for i
    using nth that parseBeat_lane_given [of i "bs ! i" "ps ! i"] by blast
  have every: "\<forall>i<length bs. \<exists>b\<in>set ?chart. id_beat b = i"
  proof (intro allI impI)
    fix i assume i: "i < length bs"
    then have "ps ! i \<in> set ?chart"
      unfolding chart using len by simp
    with entry [OF i] show "\<exists>b\<in>set ?chart. id_beat b = i"
      by blast
  qed
  have lanes: "\<forall>b\<in>set ?chart.
            id_beat b < length bs
          \<and> ((\<exists>n. bs ! id_beat b = JNum n) \<longrightarrow> lane b = JNum 1)
          \<and> ((\<forall>n. bs ! id_beat b \<noteq> JNum n)
               \<and> (get_field (bs ! id_beat b) ''lane'' = Some JUndefined
                  \<or> get_field (bs ! id_beat b) ''lane'' = Some JNull) \<longrightarrow> lane b = JNum 1)
          \<and> (\<forall>l. (\<forall>n. bs ! id_beat b \<noteq> JNum n)
               \<and> get_field (bs ! id_beat b) ''lane'' = Some l
               \<and> l \<noteq> JUndefined \<and> l \<noteq> JNull \<longrightarrow> lane b = l)"
  proof
    fix b assume "b \<in> set ?chart"
    then obtain i where i: "i < length bs" "b = ps ! i"
      unfolding chart using len by (auto simp: in_set_conv_nth)
    from entry [OF i(1)] i show "id_beat b < length bs
          \<and> ((\<exists>n. bs ! id_beat b = JNum n) \<longrightarrow> lane b = JNum 1)
          \<and> ((\<forall>n. bs ! id_beat b \<noteq> JNum n)
               \<and> (get_field (bs ! id_beat b) ''lane'' = Some JUndefined
                  \<or> get_field (bs ! id_beat b) ''lane'' = Some JNull) \<longrightarrow> lane b = JNum 1)
          \<and> (\<forall>l. (\<forall>n. bs ! id_beat b \<noteq> JNum n)
               \<and> get_field (bs ! id_beat b) ''lane'' = Some l
               \<and> l \<noteq> JUndefined \<and> l \<noteq> JNull \<longrightarrow> lane b = l)"
      by auto
  qed
  have range: "(\<forall>b\<in>set ?chart. lane b \<in> {JNum 0, JNum 1, JNum 2}) \<longleftrightarrow>
            (\<forall>e\<in>set bs. \<forall>l. (\<forall>n. e \<noteq> JNum n) \<and> get_field e ''lane'' = Some l
                \<and> l \<noteq> JUndefined \<and> l \<noteq> JNull \<longrightarrow> l \<in> {JNum 0, JNum 1, JNum 2})"
  proof
    assume in_range: "\<forall>b\<in>set ?chart. lane b \<in> {JNum 0, JNum 1, JNum 2}"
    show "\<forall>e\<in>set bs. \<forall>l. (\<forall>n. e \<noteq> JNum n) \<and> get_field e ''lane'' = Some l
                \<and> l \<noteq> JUndefined \<and> l \<noteq> JNull \<longrightarrow> l \<in> {JNum 0, JNum 1, JNum 2}"
    proof (intro ballI allI impI)
      fix e l
      assume e: "e \<in> set bs" "(\<forall>n. e \<noteq> JNum n) \<and> get_field e ''lane'' = Some l
                \<and> l \<noteq> JUndefined \<and> l \<noteq> JNull"
      then obtain i where i: "i < length bs" "e = bs ! i"
        by (auto simp: in_set_conv_nth)
      with entry [OF i(1)] e have "lane (ps ! i) = l"
        by simp
      moreover have "ps ! i \<in> set ?chart"
        unfolding chart using i(1) len by simp
      ultimately show "l \<in> {JNum 0, JNum 1, JNum 2}"
        using in_range by blast
    qed
  next
    assume given_ok: "\<forall>e\<in>set bs. \<forall>l. (\<forall>n. e \<noteq> JNum n) \<and> get_field e ''lane'' = Some l
                \<and> l \<noteq> JUndefined \<and> l \<noteq> JNull \<longrightarrow> l \<in> {JNum 0, JNum 1, JNum 2}"
    show "\<forall>b\<in>set ?chart. lane b \<in> {JNum 0, JNum 1, JNum 2}"
    proof
      fix b assume "b \<in> set ?chart"
      then obtain i where i: "i < length bs" "b = ps ! i"
        unfolding chart using len by (auto simp: in_set_conv_nth)
      from given [OF i(1)] show "lane b \<in> {JNum 0, JNum 1, JNum 2}"
      proof
        assume "lane (ps ! i) = JNum 1"
        with i show ?thesis by simp
      next
        assume "(\<forall>n. bs ! i \<noteq> JNum n) \<and> get_field (bs ! i) ''lane'' = Some (lane (ps ! i))
           \<and> lane (ps ! i) \<noteq> JUndefined \<and> lane (ps ! i) \<noteq> JNull"
        moreover have "bs ! i \<in> set bs"
          using i(1) by simp
        ultimately have "lane (ps ! i) \<in> {JNum 0, JNum 1, JNum 2}"
          using given_ok by blast
        with i show ?thesis by simp
      qed
    qed
  qed
  show ?thesis
    by (intro conjI) (rule accepted playing count every lanes range)+
qed

theorem startGame_lane_default_witness:
  "startGame JSON_parse_sample 0 (Some [JNum 2, JObj [(''time'', JNum 1)], entry_lane7])
       (g_setup [])
     = Started ((g_setup [])\<lparr>
         beatsRef := [\<lparr>id_beat = 1, time = 1, lane = 1, hit = False, missed = False\<rparr>,
                      \<lparr>id_beat = 2, time = 1, lane = 7, hit = False, missed = False\<rparr>,
                      \<lparr>id_beat = 0, time = 2, lane = 1, hit = False, missed = False\<rparr>],
         scoreRef := 0, comboRef := 0, heatRef := 0, gameState := PLAYING,
         audio := play 3 0 (audio (g_setup []))\<rparr>)
   \<and> phase_after (startGame JSON_parse_sample 0
         (Some [JNum 2, JObj [(''time'', JNum 1)], entry_lane7]) (g_setup [])) = PLAYING
   \<and> map lane (chart_after (startGame JSON_parse_sample 0 (Some [entry_lane_str, JNum 3])
         (g_setup [])))
       = [JStr ''7'', JNum 1]
   \<and> phase_after (startGame JSON_parse_sample 0 (Some [entry_lane_str, JNum 3]) (g_setup []))
       = PLAYING"
proof -
  let ?g = "g_setup []"
  let ?bs = "[JNum 2, JObj [(''time'', JNum 1)], entry_lane7]"
  let ?cs = "[entry_lane_str, JNum 3]"
  have ready: "isReady (audio ?g)"
    by (simp add: g_setup_def isReady_def)
  have bs: "beatData JSON_parse_sample (Some ?bs) (rawBeatsInput ?g) = Inr (JArr ?bs)"
    and cs: "beatData JSON_parse_sample (Some ?cs) (rawBeatsInput ?g) = Inr (JArr ?cs)"
    by (simp_all add: beatData_def)
  have bs_elems: "JNull \<notin> set ?bs" "JUndefined \<notin> set ?bs"
    and cs_elems: "JNull \<notin> set ?cs" "JUndefined \<notin> set ?cs"
    by (simp_all add: entry_lane7_def entry_lane_str_def)
  have bs_times: "\<not> (2 \<le> length ?bs
            \<and> (\<exists>e\<in>set ?bs. \<exists>v. get_field e ''time'' = Some v \<and> ToPrimitive_throws v))"
    and cs_times: "\<not> (2 \<le> length ?cs
            \<and> (\<exists>e\<in>set ?cs. \<exists>v. get_field e ''time'' = Some v \<and> ToPrimitive_throws v))"
    by (auto simp: entry_lane7_def entry_lane_str_def)
  have p1: "phase_after (startGame JSON_parse_sample 0 (Some ?bs) ?g) = PLAYING"
    using startGame_lane_default [OF ready bs bs_elems bs_times, of 0] by (elim conjE)
  have p2: "phase_after (startGame JSON_parse_sample 0 (Some ?cs) ?g) = PLAYING"
    using startGame_lane_default [OF ready cs cs_elems cs_times, of 0] by (elim conjE)
  have s1: "startGame JSON_parse_sample 0 (Some ?bs) ?g
     = Started (?g\<lparr>
         beatsRef := [\<lparr>id_beat = 1, time = 1, lane = 1, hit = False, missed = False\<rparr>,
                      \<lparr>id_beat = 2, time = 1, lane = 7, hit = False, missed = False\<rparr>,
                      \<lparr>id_beat = 0, time = 2, lane = 1, hit = False, missed = False\<rparr>],
         scoreRef := 0, comboRef := 0, heatRef := 0, gameState := PLAYING,
         audio := play 3 0 (audio ?g)\<rparr>)"
    by (simp add: startGame_def sort_throws_def beatData_def g_setup_def isReady_def
        parseBeat_def as_Beat_def entry_lane7_def nullish_or_1_def)
  have s2: "map lane (chart_after (startGame JSON_parse_sample 0 (Some ?cs) ?g))
       = [JStr ''7'', JNum 1]"
    by (simp add: startGame_def sort_throws_def beatData_def g_setup_def isReady_def
        parseBeat_def as_Beat_def entry_lane_str_def nullish_or_1_def chart_after_def)
  from s1 p1 s2 p2 show ?thesis
    by (intro conjI)
qed

section \<open>Starting and rejecting\<close>

text \<open>
  C7, as stated, says that a game starts only from a non-empty chart. With audio loaded,
  the chart text \<^verbatim>\<open>[]\<close> starts a game with no notes.
\<close>

theorem startGame_accepts_empty_counterexample:
  "gameState (g_setup ''[]'') = SETUP
   \<and> isReady (audio (g_setup ''[]''))
   \<and> JSON_parse_sample (rawBeatsInput (g_setup ''[]'')) = Some (JArr [])
   \<and> startGame JSON_parse_sample 0 None (g_setup ''[]'')
       = Started ((g_setup ''[]'')\<lparr>beatsRef := [], scoreRef := 0, comboRef := 0, heatRef := 0,
                    gameState := PLAYING, audio := play 3 0 (audio (g_setup ''[]''))\<rparr>)
   \<and> phase_after (startGame JSON_parse_sample 0 None (g_setup ''[]'')) = PLAYING"
  by (simp add: startGame_def sort_throws_def beatData_def JSON_parse_sample_def g_setup_def isReady_def
      phase_after_def)

text \<open>
  C7, amended. From SETUP, \<^verbatim>\<open>startGame\<close> leads to PLAYING exactly when the audio
  buffer is loaded and the chart data, which is the override array or else the non-empty
  chart text parsed, is an array without a \<^verbatim>\<open>null\<close> or \<^verbatim>\<open>undefined\<close>
  element and, if it has two or more entries, without a \<^verbatim>\<open>time\<close> on which the
  comparator of the sort throws. The array may be empty, and neither the type of a
  \<^verbatim>\<open>time\<close> nor the value of a \<^verbatim>\<open>lane\<close> is checked. In every other case an
  alert is shown and the state, with its phase SETUP, is as before.
\<close>

theorem startGame_starts_iff:
  assumes "gameState g = SETUP"
  shows "(phase_after (startGame P t ov g) = PLAYING \<longleftrightarrow>
            isReady (audio g)
          \<and> (\<exists>bs. beatData P ov (rawBeatsInput g) = Inr (JArr bs)
                  \<and> JNull \<notin> set bs \<and> JUndefined \<notin> set bs
                  \<and> \<not> (2 \<le> length bs
                        \<and> (\<exists>e\<in>set bs. \<exists>v. get_field e ''time'' = Some v
                                              \<and> ToPrimitive_throws v))))
       \<and> (phase_after (startGame P t ov g) \<noteq> PLAYING \<longrightarrow>
            (\<exists>a. startGame P t ov g = Alerted a g))"
proof (cases "isReady (audio g)
              \<and> (\<exists>bs ps. beatData P ov (rawBeatsInput g) = Inr (JArr bs)
                     \<and> parseBeats 0 bs = Some ps \<and> \<not> sort_throws ps)")
  case True
  then obtain bs ps where ready: "isReady (audio g)"
    and bs: "beatData P ov (rawBeatsInput g) = Inr (JArr bs)"
    and ps: "parseBeats 0 bs = Some ps" and ok: "\<not> sort_throws ps"
    by blast
  from ps have "JNull \<notin> set bs \<and> JUndefined \<notin> set bs"
    using parseBeats_None [of 0 bs] by auto
  moreover from ok have "\<not> (2 \<le> length bs
        \<and> (\<exists>e\<in>set bs. \<exists>v. get_field e ''time'' = Some v \<and> ToPrimitive_throws v))"
    using sort_throws_payload [OF ps] by simp
  moreover have "phase_after (startGame P t ov g) = PLAYING"
    using startGame_accepted [OF ready bs ps ok] by simp
  ultimately show ?thesis
    using ready bs by auto
next
  case False
  from startGame_rejected [OF False] obtain a where a: "startGame P t ov g = Alerted a g" ..
  then have phase: "phase_after (startGame P t ov g) \<noteq> PLAYING"
    using assms by (simp add: phase_after_def)
  have "\<not> (isReady (audio g)
          \<and> (\<exists>bs. beatData P ov (rawBeatsInput g) = Inr (JArr bs)
                  \<and> JNull \<notin> set bs \<and> JUndefined \<notin> set bs
                  \<and> \<not> (2 \<le> length bs
                        \<and> (\<exists>e\<in>set bs. \<exists>v. get_field e ''time'' = Some v
                                              \<and> ToPrimitive_throws v))))"
  proof
    assume h: "isReady (audio g)
          \<and> (\<exists>bs. beatData P ov (rawBeatsInput g) = Inr (JArr bs)
                  \<and> JNull \<notin> set bs \<and> JUndefined \<notin> set bs
                  \<and> \<not> (2 \<le> length bs
                        \<and> (\<exists>e\<in>set bs. \<exists>v. get_field e ''time'' = Some v
                                              \<and> ToPrimitive_throws v)))"
    then obtain bs where bs: "beatData P ov (rawBeatsInput g) = Inr (JArr bs)"
      and nn: "JNull \<notin> set bs" "JUndefined \<notin> set bs"
      and ok: "\<not> (2 \<le> length bs
                 \<and> (\<exists>e\<in>set bs. \<exists>v. get_field e ''time'' = Some v \<and> ToPrimitive_throws v))"
      by blast
    from nn obtain ps where ps: "parseBeats 0 bs = Some ps"
      using parseBeats_None [of 0 bs] by (cases "parseBeats 0 bs") auto
    from ok have "\<not> sort_throws ps"
      using sort_throws_payload [OF ps] by simp
    with h bs ps False show False by blast
  qed
  with phase a show ?thesis by blast
qed

theorem startGame_starts_iff_witness:
  "gameState (g_setup ''[2.1, 2]'') = SETUP
   \<and> phase_after (startGame JSON_parse_sample 0 None (g_setup ''[2.1, 2]'')) = PLAYING
   \<and> phase_after (startGame JSON_parse_sample 0 (Some [entry_lane_str]) (g_setup [])) = PLAYING
   \<and> phase_after (startGame JSON_parse_sample 0 (Some [JNum 1, JNull]) (g_setup [])) = SETUP
   \<and> startGame JSON_parse_sample 0 (Some [entry_bad_time, JNum 2]) (g_setup [])
       = Alerted InvalidChart (g_setup [])
   \<and> startGame JSON_parse_sample 0 None (g_setup []) = Alerted NeedChart (g_setup [])"
  using startGame_starts_iff [of "g_setup ''[2.1, 2]''" JSON_parse_sample 0 None]
        startGame_starts_iff [of "g_setup []" JSON_parse_sample 0 "Some [entry_lane_str]"]
        startGame_starts_iff [of "g_setup []" JSON_parse_sample 0 "Some [JNum 1, JNull]"]
        startGame_starts_iff [of "g_setup []" JSON_parse_sample 0 "Some [entry_bad_time, JNum 2]"]
        startGame_starts_iff [of "g_setup []" JSON_parse_sample 0 None]
  by (simp add: startGame_def sort_throws_def beatData_def JSON_parse_sample_def g_setup_def
      isReady_def phase_after_def parseBeat_def as_Beat_def entry_bad_time_def
      entry_lane_str_def nullish_or_1_def)

text \<open>
  C8. When the chart text does not parse, or parses to a value that is not an array,
  \<^verbatim>\<open>startGame\<close> without override shows an alert and leaves the whole state, with chart,
  score, combo, heat and phase, as it was. The alert is the one for missing audio when no
  buffer is loaded, the one for a missing chart when the text is empty, and the one for an
  invalid chart otherwise.
\<close>

theorem startGame_rejects_malformed:
  assumes "P (rawBeatsInput g) = None
           \<or> (\<exists>v. P (rawBeatsInput g) = Some v \<and> (\<forall>bs. v \<noteq> JArr bs))"
  shows "startGame P t None g
           = Alerted (if \<not> isReady (audio g) then NeedAudio
                      else if rawBeatsInput g = [] then NeedChart else InvalidChart) g
       \<and> phase_after (startGame P t None g) = gameState g"
proof -
  have "beatData P None (rawBeatsInput g) = Inl NeedChart \<and> rawBeatsInput g = []
        \<or> beatData P None (rawBeatsInput g) = Inl InvalidChart \<and> rawBeatsInput g \<noteq> []
        \<or> (\<exists>v. beatData P None (rawBeatsInput g) = Inr v \<and> (\<forall>bs. v \<noteq> JArr bs)
                \<and> rawBeatsInput g \<noteq> [])"
    using assms by (auto simp: beatData_def)
  then have "startGame P t None g
           = Alerted (if \<not> isReady (audio g) then NeedAudio
                      else if rawBeatsInput g = [] then NeedChart else InvalidChart) g"
    by (auto simp: startGame_cases split: js.splits)
  then show ?thesis
    by (simp add: phase_after_def)
qed

theorem startGame_rejects_malformed_witness:
  "startGame JSON_parse_sample 0 None (g_setup ''[1,'') = Alerted InvalidChart (g_setup ''[1,'')
   \<and> startGame JSON_parse_sample 0 None (g_setup ''{}'') = Alerted InvalidChart (g_setup ''{}'')
   \<and> phase_after (startGame JSON_parse_sample 0 None (g_setup ''{}'')) = SETUP"
  using startGame_rejects_malformed [of JSON_parse_sample "g_setup ''[1,''" 0]
        startGame_rejects_malformed [of JSON_parse_sample "g_setup ''{}''" 0]
  by (simp add: JSON_parse_sample_def g_setup_def isReady_def phase_after_def)

section \<open>The range of heat\<close>

text \<open>
  C9. Heat is 0 in the initial state, after a successful \<^verbatim>\<open>startGame\<close> and after
  replay. From a heat in the range 0 to 100, a tick, a press, and any sequence of ticks and
  presses leave the heat in that range.
\<close>

theorem heat_in_range:
  "heatRef App = 0
   \<and> (\<forall>g'. startGame P t ov g = Started g' \<longrightarrow> heatRef g' = 0)
   \<and> heatRef (replay t g) = 0
   \<and> (0 \<le> heatRef g \<and> heatRef g \<le> 100 \<longrightarrow>
        0 \<le> heatRef (frame t g) \<and> heatRef (frame t g) \<le> 100
      \<and> 0 \<le> heatRef (fst (handleLaneInput t rnd l g))
      \<and> heatRef (fst (handleLaneInput t rnd l g)) \<le> 100
      \<and> 0 \<le> heatRef (run g es) \<and> heatRef (run g es) \<le> 100)"
proof -
  have init: "heatRef App = 0"
    by (simp add: App_def)
  have started: "heatRef g' = 0" if "startGame P t ov g = Started g'" for g'
    using startGame_Started [OF that] by auto
  have again: "heatRef (replay t g) = 0"
    by (simp add: replay_def)
  have kept: "0 \<le> heatRef (frame t g) \<and> heatRef (frame t g) \<le> 100
      \<and> 0 \<le> heatRef (fst (handleLaneInput t rnd l g))
      \<and> heatRef (fst (handleLaneInput t rnd l g)) \<le> 100
      \<and> 0 \<le> heatRef (run g es) \<and> heatRef (run g es) \<le> 100"
    if "0 \<le> heatRef g \<and> heatRef g \<le> 100"
    using that step_heat [of g "Frame t"] handleLaneInput_heat [of g t rnd l] run_heat [of g es]
    by simp
  from init started again kept show ?thesis
    by blast
qed

theorem heat_in_range_witness:
  "0 \<le> heatRef (g_one 0) \<and> heatRef (g_one 0) \<le> 100
   \<and> 0 \<le> heatRef (frame 9 (g_one 0)) \<and> heatRef (frame 9 (g_one 0)) \<le> 100
   \<and> 0 \<le> heatRef (fst (handleLaneInput 9 0 1 (g_one 0)))
   \<and> heatRef (fst (handleLaneInput 9 0 1 (g_one 0))) \<le> 100
   \<and> 0 \<le> heatRef (run (g_one 0) [LaneInput 4.02 0 1, Frame 4.1, Frame 9])
   \<and> heatRef (run (g_one 0) [LaneInput 4.02 0 1, Frame 4.1, Frame 9]) \<le> 100"
proof -
  have "0 \<le> heatRef (g_one 0) \<and> heatRef (g_one 0) \<le> 100"
    by (simp add: g_one_def)
  then show ?thesis
    using heat_in_range [where g = "g_one 0" and t = 9 and rnd = 0 and l = 1
        and es = "[LaneInput 4.02 0 1, Frame 4.1, Frame 9]"]
    by blast
qed

section \<open>The clock without a source\<close>

text \<open>
  C10. \<^verbatim>\<open>getCurrentTime()\<close> is exactly 0 whenever there is no source node: on the
  service as constructed, on any service whose \<open>source\<close> is null, and after
  \<^verbatim>\<open>stop()\<close>. A negative time is only ever reported while a context and a source
  exist and the scheduled start lies ahead; right after \<^verbatim>\<open>play(delay)\<close> on a loaded service the clock reads
  \<open>- delay\<close>.
\<close>

theorem getCurrentTime_zero_without_source:
  "getCurrentTime audioService t = 0
   \<and> (\<not> source a \<longrightarrow> getCurrentTime a t = 0)
   \<and> getCurrentTime (stop a) t = 0
   \<and> (getCurrentTime a t < 0 \<longrightarrow> ctx a \<and> source a \<and> t < startTime a)
   \<and> (ctx a \<and> buffer a \<noteq> None \<longrightarrow> getCurrentTime (play d t a) t = - d)"
  by (simp add: getCurrentTime_def audioService_def stop_def play_def)

theorem getCurrentTime_zero_without_source_witness:
  "getCurrentTime \<lparr>ctx = True, source = False, buffer = Some 30, startTime = 7\<rparr> 5 = 0
   \<and> getCurrentTime \<lparr>ctx = True, source = True, buffer = Some 30, startTime = 7\<rparr> 5 < 0
   \<and> getCurrentTime (play 3 5 \<lparr>ctx = True, source = False, buffer = Some 30, startTime = 0\<rparr>) 5
       = - 3"
  using getCurrentTime_zero_without_source
          [of 5 "\<lparr>ctx = True, source = False, buffer = Some 30, startTime = 7\<rparr>" 3]
        getCurrentTime_zero_without_source
          [of 5 "\<lparr>ctx = True, source = True, buffer = Some 30, startTime = 7\<rparr>" 3]
        getCurrentTime_zero_without_source
          [of 5 "\<lparr>ctx = True, source = False, buffer = Some 30, startTime = 0\<rparr>" 3]
  by (simp add: getCurrentTime_def)

end
